theory Spec2Isabelle
  imports Main "HOL-Library.Sublist" "HOL-Library.Multiset"
begin

section \<open>Go strings and the standard-library functions the program calls\<close>

text \<open>
  A Go string is a sequence of bytes, so it is modelled as \<^typ>\<open>string\<close> (a list of 8-bit
  characters). The functions of this section are models of the parts of the packages
  \<^verbatim>\<open>strings\<close>, \<^verbatim>\<open>strconv\<close>, \<^verbatim>\<open>fmt\<close> and \<^verbatim>\<open>unicode/utf8\<close> that \<^verbatim>\<open>main.go\<close> calls.
  Two library functions are not modelled but taken as parameters wherever the program
  calls them: \<^verbatim>\<open>url.Parse\<close> (only the field \<^verbatim>\<open>Path\<close> of its result is used) and
  \<^verbatim>\<open>strings.EqualFold\<close> (Unicode simple case folding).
\<close>

type_synonym url_parser = "string \<Rightarrow> string option"
  \<comment> \<open>\<^verbatim>\<open>url.Parse(s)\<close>: \<open>None\<close> when it returns an error, otherwise \<open>Some\<close> of \<^verbatim>\<open>u.Path\<close>\<close>

type_synonym fold_eq = "string \<Rightarrow> string \<Rightarrow> bool"
  \<comment> \<open>\<^verbatim>\<open>strings.EqualFold\<close>\<close>

subsection \<open>Package strings\<close>

fun Contains :: "string \<Rightarrow> string \<Rightarrow> bool" where
  "Contains [] sub = (sub = [])"
| "Contains (c # cs) sub = (prefix sub (c # cs) \<or> Contains cs sub)"

definition HasPrefix :: "string \<Rightarrow> string \<Rightarrow> bool" where
  "HasPrefix s p = prefix p s"

text \<open>\<^verbatim>\<open>strings.Split(s, sep)\<close> for a separator of one byte (the program splits on \<^verbatim>\<open>"/"\<close>).\<close>

fun Split :: "string \<Rightarrow> char \<Rightarrow> string list" where
  "Split [] sep = [[]]"
| "Split (c # cs) sep =
     (if c = sep then [] # Split cs sep
      else (case Split cs sep of [] \<Rightarrow> [[c]] | p # ps \<Rightarrow> (c # p) # ps))"

text \<open>\<^verbatim>\<open>strings.SplitN(s, sep, 2)\<close> for a separator of one byte: one piece when the separator
  does not occur, otherwise the text before its first occurrence and the text after it.\<close>

definition SplitN2 :: "string \<Rightarrow> char \<Rightarrow> string list" where
  "SplitN2 s sep =
     (if sep \<in> set s
      then [takeWhile (\<lambda>c. c \<noteq> sep) s, tl (dropWhile (\<lambda>c. c \<noteq> sep) s)]
      else [s])"

text \<open>\<^verbatim>\<open>strings.Trim(s, cutset)\<close> for a cutset of one ASCII byte.\<close>

definition Trim :: "string \<Rightarrow> char \<Rightarrow> string" where
  "Trim s c = rev (dropWhile (\<lambda>x. x = c) (rev (dropWhile (\<lambda>x. x = c) s)))"

text \<open>
  \<^verbatim>\<open>strings.TrimSpace\<close> removes leading and trailing white space as \<^verbatim>\<open>unicode.IsSpace\<close>
  defines it: the six ASCII bytes tab, line feed, vertical tab, form feed, carriage return
  and space, and the runes U+0085, U+00A0, U+1680, U+2000 to U+200A, U+2028, U+2029, U+202F,
  U+205F and U+3000. A string starts (ends) with such a rune exactly when it starts (ends)
  with the rune's UTF-8 encoding, so the model strips these byte sequences.
\<close>

definition space_encodings :: "string list" where
  "space_encodings =
     [[CHR 0x09], [CHR 0x0A], [CHR 0x0B], [CHR 0x0C], [CHR 0x0D], [CHR 0x20],
      [CHR 0xC2, CHR 0x85], [CHR 0xC2, CHR 0xA0],
      [CHR 0xE1, CHR 0x9A, CHR 0x80],
      [CHR 0xE2, CHR 0x80, CHR 0x80], [CHR 0xE2, CHR 0x80, CHR 0x81],
      [CHR 0xE2, CHR 0x80, CHR 0x82], [CHR 0xE2, CHR 0x80, CHR 0x83],
      [CHR 0xE2, CHR 0x80, CHR 0x84], [CHR 0xE2, CHR 0x80, CHR 0x85],
      [CHR 0xE2, CHR 0x80, CHR 0x86], [CHR 0xE2, CHR 0x80, CHR 0x87],
      [CHR 0xE2, CHR 0x80, CHR 0x88], [CHR 0xE2, CHR 0x80, CHR 0x89],
      [CHR 0xE2, CHR 0x80, CHR 0x8A],
      [CHR 0xE2, CHR 0x80, CHR 0xA8], [CHR 0xE2, CHR 0x80, CHR 0xA9],
      [CHR 0xE2, CHR 0x80, CHR 0xAF],
      [CHR 0xE2, CHR 0x81, CHR 0x9F],
      [CHR 0xE3, CHR 0x80, CHR 0x80]]"

text \<open>The number of bytes of the entry of \<open>es\<close> that \<open>s\<close> starts with, 0 when there is none.\<close>

definition lead :: "string list \<Rightarrow> string \<Rightarrow> nat" where
  "lead es s = (case find (\<lambda>e. prefix e s) es of None \<Rightarrow> 0 | Some e \<Rightarrow> length e)"

function strip :: "string list \<Rightarrow> string \<Rightarrow> string" where
  "strip es s = (if lead es s = 0 then s else strip es (drop (lead es s) s))"
  by pat_completeness auto
termination
proof (relation "measure (\<lambda>(es, s). length s)")
  show "wf (measure (\<lambda>(es, s). length s))" by simp
next
  fix es :: "string list" and s :: string
  assume "lead es s \<noteq> 0"
  moreover have "lead es s \<le> length s"
    by (auto simp: lead_def prefix_def split: option.splits dest!: find_Some_iff[THEN iffD1])
  ultimately show "((es, drop (lead es s) s), (es, s)) \<in> measure (\<lambda>(es, s). length s)"
    by simp
qed

definition TrimSpace :: "string \<Rightarrow> string" where
  "TrimSpace s = rev (strip (map rev space_encodings) (rev (strip space_encodings s)))"

subsection \<open>Package strconv and the verb \<^verbatim>\<open>%d\<close>\<close>

definition is_digit :: "char \<Rightarrow> bool" where
  "is_digit c = (48 \<le> (of_char c :: nat) \<and> (of_char c :: nat) \<le> 57)"

definition dec_value :: "string \<Rightarrow> nat" where
  "dec_value ds = foldl (\<lambda>n c. 10 * n + (of_char c - 48)) 0 ds"

text \<open>
  \<^verbatim>\<open>strconv.Atoi\<close> on a platform whose \<^verbatim>\<open>int\<close> has 64 bits: an optional sign, then one or
  more decimal digits, and the value must lie in the range of \<^verbatim>\<open>int\<close>. \<open>None\<close> stands for
  a returned error (the program never looks at which error it is).
\<close>

definition Atoi :: "string \<Rightarrow> int option" where
  "Atoi s =
     (let neg = (s \<noteq> [] \<and> hd s = CHR ''-'');
          ds = (if s \<noteq> [] \<and> (hd s = CHR ''-'' \<or> hd s = CHR ''+'') then tl s else s)
      in if ds = [] \<or> \<not> list_all is_digit ds then None
         else if neg then
           (if int (dec_value ds) > 2 ^ 63 then None else Some (- int (dec_value ds)))
         else
           (if int (dec_value ds) \<ge> 2 ^ 63 then None else Some (int (dec_value ds))))"

fun nat_dec :: "nat \<Rightarrow> string" where
  "nat_dec n = (if n < 10 then [char_of (48 + n)]
                else nat_dec (n div 10) @ [char_of (48 + n mod 10)])"

definition fmt_d :: "int \<Rightarrow> string" where
  "fmt_d i = (if i < 0 then CHR ''-'' # nat_dec (nat (- i)) else nat_dec (nat i))"

subsection \<open>Package unicode/utf8\<close>

text \<open>
  A rune is a Unicode code point; the runes the program handles come from decoding a
  string, so they are modelled as natural numbers. \<open>first_info\<close> is the table \<^verbatim>\<open>first\<close>
  of the package together with \<^verbatim>\<open>acceptRanges\<close>: for a leading byte of a multi-byte
  sequence, the length of the sequence and the range allowed for its second byte.
\<close>

definition RuneError :: nat where
  "RuneError = 0xFFFD"

definition first_info :: "nat \<Rightarrow> (nat \<times> nat \<times> nat) option" where
  "first_info b =
     (if 0xC2 \<le> b \<and> b \<le> 0xDF then Some (2, 0x80, 0xBF)
      else if b = 0xE0 then Some (3, 0xA0, 0xBF)
      else if (0xE1 \<le> b \<and> b \<le> 0xEC) \<or> b = 0xEE \<or> b = 0xEF then Some (3, 0x80, 0xBF)
      else if b = 0xED then Some (3, 0x80, 0x9F)
      else if b = 0xF0 then Some (4, 0x90, 0xBF)
      else if 0xF1 \<le> b \<and> b \<le> 0xF3 then Some (4, 0x80, 0xBF)
      else if b = 0xF4 then Some (4, 0x80, 0x8F)
      else None)"

text \<open>\<^verbatim>\<open>utf8.DecodeRuneInString\<close>: the first rune of the string and the number of bytes it
  takes; an invalid or truncated sequence gives \<open>RuneError\<close> and one byte.\<close>

definition DecodeRune :: "string \<Rightarrow> nat \<times> nat" where
  "DecodeRune s =
     (case s of
        [] \<Rightarrow> (RuneError, 0)
      | c0 # _ \<Rightarrow>
          let s0 = of_char c0 in
          if s0 < 0x80 then (s0, 1)
          else (case first_info s0 of
                  None \<Rightarrow> (RuneError, 1)
                | Some (sz, lo, hi) \<Rightarrow>
                    if length s < sz then (RuneError, 1)
                    else let s1 = of_char (s ! 1) in
                    if s1 < lo \<or> hi < s1 then (RuneError, 1)
                    else if sz \<le> 2 then ((s0 mod 32) * 64 + s1 mod 64, 2)
                    else let s2 = of_char (s ! 2) in
                    if s2 < 0x80 \<or> 0xBF < s2 then (RuneError, 1)
                    else if sz \<le> 3
                      then ((s0 mod 16) * 4096 + (s1 mod 64) * 64 + s2 mod 64, 3)
                    else let s3 = of_char (s ! 3) in
                    if s3 < 0x80 \<or> 0xBF < s3 then (RuneError, 1)
                    else ((s0 mod 8) * 262144 + (s1 mod 64) * 4096
                            + (s2 mod 64) * 64 + s3 mod 64, 4)))"

text \<open>The conversion \<^verbatim>\<open>[]rune(s)\<close>.\<close>

function runes :: "string \<Rightarrow> nat list" where
  "runes s = (if s = [] then []
              else fst (DecodeRune s) # runes (drop (snd (DecodeRune s)) s))"
  by pat_completeness auto
termination
proof (relation "measure length")
  show "wf (measure length)" by simp
next
  fix s :: string
  assume "s \<noteq> []"
  then have "0 < snd (DecodeRune s)"
    by (cases s) (auto simp: DecodeRune_def Let_def split: option.splits)
  with \<open>s \<noteq> []\<close> show "(drop (snd (DecodeRune s)) s, s) \<in> measure length"
    by simp
qed

text \<open>\<^verbatim>\<open>utf8.AppendRune\<close>, which the conversion \<^verbatim>\<open>string(rs)\<close> of a rune slice applies to
  every rune: a surrogate or a value beyond U+10FFFF is written as U+FFFD.\<close>

definition EncodeRune :: "nat \<Rightarrow> string" where
  "EncodeRune r =
     (if r \<le> 0x7F then [char_of r]
      else if r \<le> 0x7FF then [char_of (0xC0 + r div 64), char_of (0x80 + r mod 64)]
      else if r > 0x10FFFF \<or> (0xD800 \<le> r \<and> r \<le> 0xDFFF)
        then [CHR 0xEF, CHR 0xBF, CHR 0xBD]
      else if r \<le> 0xFFFF
        then [char_of (0xE0 + r div 4096), char_of (0x80 + (r div 64) mod 64),
              char_of (0x80 + r mod 64)]
      else [char_of (0xF0 + r div 262144), char_of (0x80 + (r div 4096) mod 64),
            char_of (0x80 + (r div 64) mod 64), char_of (0x80 + r mod 64)])"

definition string_of_runes :: "nat list \<Rightarrow> string" where
  "string_of_runes rs = concat (map EncodeRune rs)"

subsection \<open>Package encoding/json\<close>

text \<open>
  The package coerces strings to valid UTF-8 in both directions: the encoder writes a byte
  that does not belong to a valid UTF-8 sequence as the escape \<^verbatim>\<open>\ufffd\<close>, and the decoder
  replaces such a byte inside a string literal by U+FFFD. \<open>coerce\<close> is that replacement;
  it leaves a string of valid UTF-8 as it is.
\<close>

definition coerce :: "string \<Rightarrow> string" where
  "coerce s = string_of_runes (runes s)"

section \<open>Errors\<close>

text \<open>
  Every error value the program creates or passes on. \<open>Error\<close> is the method
  \<^verbatim>\<open>Error()\<close>: the text \<^verbatim>\<open>fmt.Errorf\<close> built, or the text of an error that came from the
  operating system, the JSON decoder or the HTTP client.
\<close>

datatype error =
    ErrEmptyRepo
  | ErrInvalidFormat
  | ErrInvalidNumber string
  | ErrNotOwnerRepo
  | ErrExists
  | ErrNotFound
  | ErrOpen string
  | ErrDecode string
  | ErrWrite string
  | ErrInvalidRepo string
  | ErrTransport string
  | ErrAPI string string
  | ErrBody string

fun Error :: "error \<Rightarrow> string" where
  "Error ErrEmptyRepo = ''empty repo''"
| "Error ErrInvalidFormat = ''invalid format, expected owner/repo or owner/repo#number''"
| "Error (ErrInvalidNumber numStr) = ''invalid pull request number: '' @ numStr"
| "Error ErrNotOwnerRepo = ''repo must be in owner/repo format''"
| "Error ErrExists = ''repo already exists''"
| "Error ErrNotFound = ''repo not found''"
| "Error (ErrOpen msg) = msg"
| "Error (ErrDecode msg) = msg"
| "Error (ErrWrite msg) = msg"
| "Error (ErrInvalidRepo repo) = ''invalid repo: '' @ repo"
| "Error (ErrTransport msg) = msg"
| "Error (ErrAPI st body) = ''github API error: '' @ st @ '': '' @ TrimSpace body"
| "Error (ErrBody msg) = msg"

section \<open>The store: \<^verbatim>\<open>RepoStore\<close>\<close>

text \<open>
  The store is one file, \<^verbatim>\<open>repos.json\<close>. The program sees its bytes only through one call
  of \<^verbatim>\<open>json.Decoder.Decode\<close> into a \<^verbatim>\<open>[]string\<close>, which reads the first JSON value of the
  file and nothing after it. The contents of the file are therefore modelled by what that
  call returns on them:
  \<^item> \<open>Blank\<close>: \<^verbatim>\<open>Decode\<close> returns \<^verbatim>\<open>io.EOF\<close>, which it does when the file is empty or holds
    white space only;
  \<^item> \<open>Malformed msg\<close>: \<^verbatim>\<open>Decode\<close> returns an error other than \<^verbatim>\<open>io.EOF\<close>, of text \<open>msg\<close>, as
    it does when the first value is broken (\<^verbatim>\<open>[x]\<close>), cut short (\<^verbatim>\<open>["a",\<close>) or of another
    type (\<^verbatim>\<open>[1, 2]\<close>);
  \<^item> \<open>Encoded xs\<close>: \<^verbatim>\<open>Decode\<close> returns no error: the first value is \<^verbatim>\<open>null\<close> (then \<open>xs\<close> is
    empty) or an array of string literals, which denote the strings \<open>xs\<close>, and the call
    yields \<open>xs\<close> coerced to valid UTF-8. What follows the first value does not matter: a
    file \<^verbatim>\<open>[] garbage\<close> is \<open>Encoded []\<close>.
\<close>

datatype contents = Blank | Malformed string | Encoded "string list"

text \<open>
  The file itself: it does not exist, or \<^verbatim>\<open>os.Open\<close> fails on it with another error
  (of text \<open>msg\<close>), or it can be read.
\<close>

datatype file_state = Missing | Unreadable string | File contents

text \<open>
  How the next \<^verbatim>\<open>Save\<close> will fail, if it does: \<^verbatim>\<open>os.OpenFile\<close> returns an error (the file
  is left as it was), or the file is opened and truncated and the write of the encoder
  fails, leaving the file with the given contents.
\<close>

datatype save_fault = OpenFault string | WriteFault string contents

record disk =
  repo_file :: file_state
  fault :: "save_fault option"

definition Load :: "disk \<Rightarrow> error + string list" where
  "Load d =
     (case repo_file d of
        Missing \<Rightarrow> Inr []
      | Unreadable msg \<Rightarrow> Inl (ErrOpen msg)
      | File Blank \<Rightarrow> Inr []
      | File (Malformed msg) \<Rightarrow> Inl (ErrDecode msg)
      | File (Encoded repos) \<Rightarrow> Inr (map coerce repos))"

definition Save :: "string list \<Rightarrow> disk \<Rightarrow> error option \<times> disk" where
  "Save repos d =
     (case fault d of
        Some (OpenFault msg) \<Rightarrow> (Some (ErrOpen msg), d)
      | Some (WriteFault msg left) \<Rightarrow> (Some (ErrWrite msg), d\<lparr>repo_file := File left\<rparr>)
      | None \<Rightarrow> (None, d\<lparr>repo_file := File (Encoded (map coerce repos))\<rparr>))"

text \<open>Lines 72 to 86 of \<^verbatim>\<open>Add\<close>: a GitHub URL is rewritten to \<^verbatim>\<open>owner/repo\<close> or
  \<^verbatim>\<open>owner/repo#number\<close>; \<open>repo\<close> is the input after \<^verbatim>\<open>TrimSpace\<close>.\<close>

definition looks_like_url :: "string \<Rightarrow> bool" where
  "looks_like_url repo =
     (Contains repo ''github.com/'' \<or> HasPrefix repo ''http://'' \<or> HasPrefix repo ''https://'')"

definition normalize_url :: "url_parser \<Rightarrow> string \<Rightarrow> string" where
  "normalize_url parse repo =
     (if looks_like_url repo then
        (case parse repo of
           None \<Rightarrow> repo
         | Some u_path \<Rightarrow>
             let parts = Split (Trim u_path (CHR ''/'')) (CHR ''/'') in
             if length parts \<ge> 4 \<and> parts ! 2 = ''pull'' then
               (case Atoi (parts ! 3) of
                  Some _ \<Rightarrow> parts ! 0 @ ''/'' @ parts ! 1 @ ''#'' @ parts ! 3
                | None \<Rightarrow> repo)
             else if length parts \<ge> 2 then parts ! 0 @ ''/'' @ parts ! 1
             else repo)
      else repo)"

text \<open>Lines 88 to 102 of \<^verbatim>\<open>Add\<close>: the checks on the normalized reference.\<close>

definition validate :: "string \<Rightarrow> error option" where
  "validate repo =
     (if Contains repo ''#'' then
        (let parts = SplitN2 repo (CHR ''#'');
             repoPart = TrimSpace (parts ! 0);
             numStr = TrimSpace (parts ! 1)
         in if repoPart = [] \<or> numStr = [] then Some ErrInvalidFormat
            else if Atoi numStr = None then Some (ErrInvalidNumber numStr)
            else if \<not> Contains repoPart ''/'' then Some ErrNotOwnerRepo
            else None)
      else if \<not> Contains repo ''/'' then Some ErrNotOwnerRepo
      else None)"

definition Add :: "url_parser \<Rightarrow> fold_eq \<Rightarrow> string \<Rightarrow> disk \<Rightarrow> error option \<times> disk" where
  "Add parse EqualFold raw d =
     (let repo = TrimSpace raw in
      if repo = [] then (Some ErrEmptyRepo, d)
      else let repo = normalize_url parse repo in
      case validate repo of
        Some e \<Rightarrow> (Some e, d)
      | None \<Rightarrow>
          (case Load d of
             Inl e \<Rightarrow> (Some e, d)
           | Inr repos \<Rightarrow>
               if list_ex (\<lambda>r. EqualFold r repo) repos then (Some ErrExists, d)
               else Save (repos @ [repo]) d))"

text \<open>The loop of \<^verbatim>\<open>Remove\<close>: the index of the first element that satisfies \<open>P\<close>, \<open>None\<close> for
  the \<^verbatim>\<open>-1\<close> the loop leaves when there is none.\<close>

fun first_index :: "('a \<Rightarrow> bool) \<Rightarrow> 'a list \<Rightarrow> nat option" where
  "first_index P [] = None"
| "first_index P (x # xs) =
     (if P x then Some 0 else map_option Suc (first_index P xs))"

definition Remove :: "fold_eq \<Rightarrow> string \<Rightarrow> disk \<Rightarrow> error option \<times> disk" where
  "Remove EqualFold raw d =
     (let repo = TrimSpace raw in
      if repo = [] then (Some ErrEmptyRepo, d)
      else case Load d of
        Inl e \<Rightarrow> (Some e, d)
      | Inr repos \<Rightarrow>
          (case first_index (\<lambda>r. EqualFold r repo \<or> r = repo) repos of
             None \<Rightarrow> (Some ErrNotFound, d)
           | Some idx \<Rightarrow> Save (take idx repos @ drop (idx + 1) repos) d))"

section \<open>Fetching pull requests: \<^verbatim>\<open>fetchPRs\<close>\<close>

record User =
  Login :: string

record PullRequest =
  Number :: int
  Title :: string
  HTMLURL :: string
  User :: User
  CreatedAt :: string

text \<open>
  The network is a parameter of the model. \<open>NewRequest_ok url\<close> says whether
  \<^verbatim>\<open>http.NewRequest("GET", url, nil)\<close> returns a request (it returns \<^verbatim>\<open>nil\<close> and an error
  when \<^verbatim>\<open>url.Parse\<close> rejects the URL, for instance for a control character or a malformed
  percent escape). \<open>Do\<close> is \<^verbatim>\<open>client.Do\<close>: a transport error with its text, or a response.
  A response carries its status code, its status line, the text of its body, and what
  \<^verbatim>\<open>json.Decoder.Decode\<close> returns on that body for a \<^verbatim>\<open>PullRequest\<close> and for a
  \<^verbatim>\<open>[]PullRequest\<close> (the text of the error, or the decoded value).
\<close>

record request =
  req_url :: string
  req_accept :: string
  req_authorization :: "string option"

record response =
  StatusCode :: int
  Status :: string
  Body :: string
  BodyAsPull :: "string + PullRequest"
  BodyAsPulls :: "string + PullRequest list"

record net =
  NewRequest_ok :: "string \<Rightarrow> bool"
  Do :: "request \<Rightarrow> string + response"

text \<open>A call either returns or panics; an unrecovered panic in any goroutine ends the
  process.\<close>

datatype 'a outcome = Panic | Return 'a

text \<open>Lines 159 to 183 of \<^verbatim>\<open>fetchPRs\<close>: the flag \<^verbatim>\<open>singlePR\<close> and the URL to request, or
  \<open>None\<close> where the function returns the error \<^verbatim>\<open>invalid repo\<close>.\<close>

definition fetch_target :: "string \<Rightarrow> (bool \<times> string) option" where
  "fetch_target repo =
     (let (repoPart, singlePR, prNumber) =
            (if Contains repo ''#'' then
               (let p = SplitN2 repo (CHR ''#'');
                    nstr = TrimSpace (p ! 1)
                in (TrimSpace (p ! 0),
                    (if nstr \<noteq> [] then
                       (case Atoi nstr of Some n \<Rightarrow> (True, n) | None \<Rightarrow> (False, 0))
                     else (False, 0))))
             else (repo, False, 0));
          parts = SplitN2 repoPart (CHR ''/'')
      in if length parts \<noteq> 2 then None
         else let owner = parts ! 0; name = parts ! 1 in
           Some (singlePR,
             if singlePR
             then ''https://api.github.com/repos/'' @ owner @ ''/'' @ name @ ''/pulls/''
                    @ fmt_d prNumber
             else ''https://api.github.com/repos/'' @ owner @ ''/'' @ name
                    @ ''/pulls?state=open''))"

definition fetchPRs :: "net \<Rightarrow> string \<Rightarrow> string \<Rightarrow> (error + PullRequest list) outcome" where
  "fetchPRs nw repo token =
     (case fetch_target repo of
        None \<Rightarrow> Return (Inl (ErrInvalidRepo repo))
      | Some (singlePR, url) \<Rightarrow>
          if \<not> NewRequest_ok nw url then Panic
          else
            (case Do nw \<lparr>req_url = url, req_accept = ''application/vnd.github+json'',
                         req_authorization =
                           (if token \<noteq> [] then Some (''token '' @ token) else None)\<rparr> of
               Inl msg \<Rightarrow> Return (Inl (ErrTransport msg))
             | Inr resp \<Rightarrow>
                 if StatusCode resp \<noteq> 200
                 then Return (Inl (ErrAPI (Status resp) (Body resp)))
                 else if singlePR then
                   (case BodyAsPull resp of
                      Inl msg \<Rightarrow> Return (Inl (ErrBody msg))
                    | Inr pr \<Rightarrow> Return (Inr [pr]))
                 else
                   (case BodyAsPulls resp of
                      Inl msg \<Rightarrow> Return (Inl (ErrBody msg))
                    | Inr prs \<Rightarrow> Return (Inr prs))))"

section \<open>Fan-out and fan-in: lines 267 to 283 of \<^verbatim>\<open>cmdList\<close>\<close>

record PRResult =
  Repo :: string
  PRs :: "PullRequest list"
  Err :: "error option"

text \<open>The value a goroutine sends: \<^verbatim>\<open>PRResult{Repo: repo, PRs: prs, Err: err}\<close>.\<close>

definition mk_result :: "string \<Rightarrow> error + PullRequest list \<Rightarrow> PRResult" where
  "mk_result repo r =
     (case r of
        Inl e \<Rightarrow> \<lparr>Repo = repo, PRs = [], Err = Some e\<rparr>
      | Inr prs \<Rightarrow> \<lparr>Repo = repo, PRs = prs, Err = None\<rparr>)"

text \<open>
  One goroutine is started per stored reference; the channel has room for all of them, so
  no send blocks. A state of the fan-out is the list of the references whose goroutines
  have not sent yet, with the contents of the channel, or the crashed process. A step lets
  any one of the pending goroutines finish: it sends its result, or it panics.
\<close>

datatype fan_state = Running "string list" "PRResult list" | Crashed

inductive fan_step :: "net \<Rightarrow> string \<Rightarrow> fan_state \<Rightarrow> fan_state \<Rightarrow> bool"
  for nw :: net and token :: string
where
  send: "fetchPRs nw repo token = Return r \<Longrightarrow>
         fan_step nw token (Running (before @ repo # after) ch)
                           (Running (before @ after) (ch @ [mk_result repo r]))"
| crash: "fetchPRs nw repo token = Panic \<Longrightarrow>
          fan_step nw token (Running (before @ repo # after) ch) Crashed"

code_pred fan_step .

text \<open>\<^verbatim>\<open>wg.Wait()\<close> returns when no goroutine is pending; the loop over the closed channel
  then reads the results in the order they were sent.\<close>

definition collects :: "net \<Rightarrow> string \<Rightarrow> string list \<Rightarrow> PRResult list \<Rightarrow> bool" where
  "collects nw token repos results \<longleftrightarrow>
     (fan_step nw token)\<^sup>*\<^sup>* (Running repos []) (Running [] results)"

definition crashes :: "net \<Rightarrow> string \<Rightarrow> string list \<Rightarrow> bool" where
  "crashes nw token repos \<longleftrightarrow> (fan_step nw token)\<^sup>*\<^sup>* (Running repos []) Crashed"

section \<open>The table: \<^verbatim>\<open>truncate\<close> and the rows of \<^verbatim>\<open>printTable\<close>\<close>

definition truncate :: "string \<Rightarrow> int \<Rightarrow> string" where
  "truncate s maxn =
     (if maxn \<le> 0 then []
      else let rs = runes s in
        if int (length rs) \<le> maxn then s
        else if maxn \<le> 3 then string_of_runes (take (nat maxn) rs)
        else string_of_runes (take (nat (maxn - 3)) rs) @ ''...'')"

text \<open>Lines 305 to 318 of \<^verbatim>\<open>printTable\<close>: the rows of one result.\<close>

definition result_rows :: "PRResult \<Rightarrow> (string \<times> string \<times> string) list" where
  "result_rows res =
     (case Err res of
        Some e \<Rightarrow> [(Repo res, [], ''(error: '' @ Error e @ '')'')]
      | None \<Rightarrow>
          if PRs res = [] then [(Repo res, [], ''(no open PRs)'')]
          else map (\<lambda>pr. (Repo res, HTMLURL pr, truncate (Title pr) 60)) (PRs res))"

definition table_rows :: "PRResult list \<Rightarrow> (string \<times> string \<times> string) list" where
  "table_rows results = concat (map result_rows results)"

section \<open>Concrete stand-ins for the two library parameters\<close>

text \<open>
  The theorems below hold for every behaviour of \<^verbatim>\<open>url.Parse\<close> and \<^verbatim>\<open>strings.EqualFold\<close>.
  Closed examples need concrete functions. \<open>ascii_fold\<close> compares after mapping the
  bytes \<^verbatim>\<open>A\<close> to \<^verbatim>\<open>Z\<close> to lower case; it is what \<^verbatim>\<open>strings.EqualFold\<close> computes on two
  strings of ASCII bytes. \<open>plain_url_path\<close> answers for inputs \<^verbatim>\<open>http://host/path\<close> and
  \<^verbatim>\<open>https://host/path\<close> written with ASCII letters, digits and the bytes \<^verbatim>\<open>- . _ ~ /\<close>
  only: on these \<^verbatim>\<open>url.Parse\<close> succeeds and \<^verbatim>\<open>Path\<close> is the text from the first \<^verbatim>\<open>/\<close> after
  the host. Every other input is outside what it describes (it answers \<open>None\<close> there),
  and no example lets such an input reach \<^verbatim>\<open>url.Parse\<close>.

  \<open>loose_url_path\<close> describes two more shapes of input, written with the same bytes.
  A fragment: \<^verbatim>\<open>url.Parse\<close> cuts the input at the first \<^verbatim>\<open>#\<close> and parses the text before it,
  so the fragment is not part of \<^verbatim>\<open>Path\<close>. No scheme: an input such as
  \<^verbatim>\<open>github.com/owner/name\<close>, which has no \<^verbatim>\<open>:\<close> and does not start with \<^verbatim>\<open>//\<close>, is a relative
  reference, and \<^verbatim>\<open>Path\<close> is the whole of it.
\<close>

definition ascii_lower :: "char \<Rightarrow> char" where
  "ascii_lower c =
     (if 65 \<le> (of_char c :: nat) \<and> (of_char c :: nat) \<le> 90
      then char_of ((of_char c :: nat) + 32) else c)"

definition ascii_fold :: fold_eq where
  "ascii_fold a b = (map ascii_lower a = map ascii_lower b)"

definition plain_char :: "char \<Rightarrow> bool" where
  "plain_char c =
     (let n = (of_char c :: nat) in
      (48 \<le> n \<and> n \<le> 57) \<or> (65 \<le> n \<and> n \<le> 90) \<or> (97 \<le> n \<and> n \<le> 122)
      \<or> c \<in> set ''-._~/'')"

definition plain_url_path :: url_parser where
  "plain_url_path s =
     (if prefix ''https://'' s \<and> list_all plain_char (drop 8 s)
        then Some (dropWhile (\<lambda>c. c \<noteq> CHR ''/'') (drop 8 s))
      else if prefix ''http://'' s \<and> list_all plain_char (drop 7 s)
        then Some (dropWhile (\<lambda>c. c \<noteq> CHR ''/'') (drop 7 s))
      else None)"

definition loose_url_path :: url_parser where
  "loose_url_path s =
     (let u = takeWhile (\<lambda>c. c \<noteq> CHR ''#'') s;
          frag = drop (Suc (length u)) s
      in if \<not> list_all plain_char frag then None
         else if prefix ''https://'' u \<or> prefix ''http://'' u then plain_url_path u
         else if list_all plain_char u \<and> \<not> prefix ''//'' u then Some u
         else None)"

definition empty_disk :: disk where
  "empty_disk = \<lparr>repo_file = Missing, fault = None\<rparr>"

definition disk_of :: "string list \<Rightarrow> disk" where
  "disk_of repos = \<lparr>repo_file = File (Encoded repos), fault = None\<rparr>"

section \<open>Vocabulary of the properties\<close>

text \<open>The part of a normalized reference that \<^verbatim>\<open>Add\<close> checks for a \<^verbatim>\<open>/\<close>: the text
  before the first \<^verbatim>\<open>#\<close>, trimmed, or the whole reference when it has no \<^verbatim>\<open>#\<close>.\<close>

definition repo_portion :: "string \<Rightarrow> string" where
  "repo_portion repo =
     (if Contains repo ''#'' then TrimSpace (SplitN2 repo (CHR ''#'') ! 0) else repo)"

text \<open>The errors of the checks of \<^verbatim>\<open>Add\<close> that come before the store is read.\<close>

fun is_validation_error :: "error \<Rightarrow> bool" where
  "is_validation_error ErrEmptyRepo = True"
| "is_validation_error ErrInvalidFormat = True"
| "is_validation_error (ErrInvalidNumber numStr) = True"
| "is_validation_error ErrNotOwnerRepo = True"
| "is_validation_error e = False"

text \<open>The bytes a string that \<^verbatim>\<open>Atoi\<close> accepts is made of.\<close>

definition number_char :: "char \<Rightarrow> bool" where
  "number_char c = (is_digit c \<or> c = CHR ''-'' \<or> c = CHR ''+'')"

text \<open>The endpoint of the open pull requests of a repository.\<close>

definition collection_url :: "string \<Rightarrow> string \<Rightarrow> string" where
  "collection_url owner name =
     ''https://api.github.com/repos/'' @ owner @ ''/'' @ name @ ''/pulls?state=open''"

text \<open>A result is the one its reference's fetch returned.\<close>

definition fetched :: "net \<Rightarrow> string \<Rightarrow> PRResult \<Rightarrow> bool" where
  "fetched nw token res \<longleftrightarrow>
     (case fetchPRs nw (Repo res) token of
        Panic \<Rightarrow> False
      | Return r \<Rightarrow> res = mk_result (Repo res) r)"

text \<open>A string of valid UTF-8: the coercion of the JSON package does not change it.\<close>

definition valid_utf8 :: "string \<Rightarrow> bool" where
  "valid_utf8 s \<longleftrightarrow> coerce s = s"

text \<open>The runes a decoder can return: the Unicode scalar values (U+FFFD is one).\<close>

definition valid_rune :: "nat \<Rightarrow> bool" where
  "valid_rune r = (r < 0xD800 \<or> (0xE000 \<le> r \<and> r \<le> 0x10FFFF))"

section \<open>A mock network\<close>

text \<open>
  A mock network for closed examples. Its \<^verbatim>\<open>http.NewRequest\<close> rejects a URL in whose path
  (the text before the first \<^verbatim>\<open>?\<close>) a \<^verbatim>\<open>%\<close> is not followed by two hexadecimal digits, as
  \<^verbatim>\<open>url.Parse\<close> does, and accepts every other URL. Its remote answers the request for the
  open pull requests of \<^verbatim>\<open>acme/a\<close> with status 200 and three pull requests, and every
  other request with status 404.
\<close>

definition is_hex :: "char \<Rightarrow> bool" where
  "is_hex c =
     (let n = (of_char c :: nat) in
      (48 \<le> n \<and> n \<le> 57) \<or> (65 \<le> n \<and> n \<le> 70) \<or> (97 \<le> n \<and> n \<le> 102))"

fun escapes_ok :: "string \<Rightarrow> bool" where
  "escapes_ok [] = True"
| "escapes_ok (c # cs) =
     (if c = CHR ''%''
      then (case cs of a # b # rest \<Rightarrow> is_hex a \<and> is_hex b \<and> escapes_ok rest | _ \<Rightarrow> False)
      else escapes_ok cs)"

definition pull :: "int \<Rightarrow> string \<Rightarrow> PullRequest" where
  "pull n t =
     \<lparr>Number = n, Title = t, HTMLURL = ''https://github.com/acme/a/pull/'' @ fmt_d n,
      User = \<lparr>Login = ''octocat''\<rparr>, CreatedAt = ''2024-01-01T00:00:00Z''\<rparr>"

definition three_pulls :: "PullRequest list" where
  "three_pulls = [pull 1 ''first'', pull 2 ''second'', pull 3 ''third'']"

definition mock_net :: net where
  "mock_net =
     \<lparr>NewRequest_ok = (\<lambda>u. escapes_ok (takeWhile (\<lambda>c. c \<noteq> CHR ''?'') u)),
      Do = (\<lambda>req.
        if req_url req = collection_url ''acme'' ''a''
        then Inr \<lparr>StatusCode = 200, Status = ''200 OK'', Body = ''[...]'',
                  BodyAsPull = Inl ''json: cannot unmarshal array into Go value of type main.PullRequest'',
                  BodyAsPulls = Inr three_pulls\<rparr>
        else Inr \<lparr>StatusCode = 404, Status = ''404 Not Found'', Body = ''Not Found'',
                  BodyAsPull = Inl ''invalid character N looking for beginning of value'',
                  BodyAsPulls = Inl ''invalid character N looking for beginning of value''\<rparr>)\<rparr>"

definition result_a :: PRResult where
  "result_a = \<lparr>Repo = ''acme/a'', PRs = three_pulls, Err = None\<rparr>"

definition result_b :: PRResult where
  "result_b = \<lparr>Repo = ''acme/b'', PRs = [], Err = Some (ErrAPI ''404 Not Found'' ''Not Found'')\<rparr>"

section \<open>An example title\<close>

text \<open>A title of 61 runes in 62 bytes: \<^verbatim>\<open>e\<close> with an acute accent (two bytes), then sixty
  digits.\<close>

definition long_title :: string where
  "long_title =
     CHR 0xC3 # CHR 0xA9 # ''012345678901234567890123456789012345678901234567890123456789''"

declare strip.simps [simp del]
declare runes.simps [simp del]

section \<open>Auxiliary facts\<close>

subsection \<open>Strings\<close>

lemma Contains_single: "Contains s [c] \<longleftrightarrow> c \<in> set s"
  by (induction s) auto

lemma SplitN2_at:
  "c \<notin> set pre \<Longrightarrow> SplitN2 (pre @ c # post) c = [pre, post]"
  by (induction pre) (auto simp: SplitN2_def)

lemma first_index_None: "first_index P xs = None \<longleftrightarrow> (\<forall>x\<in>set xs. \<not> P x)"
  by (induction xs) auto

lemma first_index_Some:
  "first_index P xs = Some i \<longleftrightarrow> i < length xs \<and> P (xs ! i) \<and> (\<forall>j<i. \<not> P (xs ! j))"
proof (induction xs arbitrary: i)
  case Nil
  then show ?case by simp
next
  case (Cons x xs)
  show ?case
  proof (cases "P x")
    case True
    then show ?thesis by (cases i) auto
  next
    case False
    show ?thesis
    proof (cases i)
      case 0
      with False show ?thesis by auto
    next
      case (Suc k)
      with False Cons.IH[of k] show ?thesis
        by (auto simp: less_Suc_eq_0_disj)
    qed
  qed
qed

lemma Contains_subset: "Contains s sub \<Longrightarrow> set sub \<subseteq> set s"
proof (induction s)
  case Nil
  then show ?case by simp
next
  case (Cons a s)
  from Cons.prems have "prefix sub (a # s) \<or> Contains s sub" by simp
  then show ?case
  proof
    assume "prefix sub (a # s)"
    then show ?thesis by (rule set_mono_prefix)
  next
    assume "Contains s sub"
    with Cons.IH show ?thesis by auto
  qed
qed

lemma looks_like_url_slash: "looks_like_url s \<Longrightarrow> CHR ''/'' \<in> set s"
proof -
  assume "looks_like_url s"
  then consider "Contains s ''github.com/''" | "prefix ''http://'' s" | "prefix ''https://'' s"
    by (auto simp: looks_like_url_def HasPrefix_def)
  then show ?thesis
  proof cases
    case 1
    from Contains_subset[OF this] show ?thesis by simp
  next
    case 2
    then show ?thesis by (auto simp: prefix_def)
  next
    case 3
    then show ?thesis by (auto simp: prefix_def)
  qed
qed

lemma lead_0_strip: "lead es s = 0 \<Longrightarrow> strip es s = s"
  by (simp add: strip.simps)

lemma lead_prefix:
  "lead es s \<noteq> 0 \<Longrightarrow> \<exists>e\<in>set es. prefix e s \<and> e \<noteq> [] \<and> lead es s = length e"
  by (auto simp: lead_def split: option.splits dest!: find_Some_iff[THEN iffD1])


lemma strip_keeps:
  "c \<in> set s \<Longrightarrow> \<forall>e\<in>set es. c \<notin> set e \<Longrightarrow> c \<in> set (strip es s)"
proof (induction es s rule: strip.induct)
  case (1 es s)
  show ?case
  proof (cases "lead es s = 0")
    case True
    with 1 show ?thesis by (simp add: lead_0_strip)
  next
    case False
    from lead_prefix[OF False] obtain e where
      e: "e \<in> set es" "prefix e s" "lead es s = length e" by blast
    then obtain t where t: "s = e @ t" by (auto simp: prefix_def)
    with e have d: "drop (lead es s) s = t" by simp
    from 1(2,3) e(1) t have "c \<in> set t" by auto
    with 1(1)[OF False] 1(3) d have "c \<in> set (strip es (drop (lead es s) s))" by simp
    moreover from False have "strip es s = strip es (drop (lead es s) s)"
      by (subst strip.simps) simp
    ultimately show ?thesis by simp
  qed
qed


lemma TrimSpace_keeps:
  assumes "c \<in> set s" and "\<forall>e\<in>set space_encodings. c \<notin> set e"
  shows "c \<in> set (TrimSpace s)"
proof -
  from assms have "c \<in> set (strip space_encodings s)" by (rule strip_keeps)
  then have "c \<in> set (rev (strip space_encodings s))" by simp
  moreover from assms(2) have "\<forall>e\<in>set (map rev space_encodings). c \<notin> set e" by simp
  ultimately have "c \<in> set (strip (map rev space_encodings) (rev (strip space_encodings s)))"
    by (rule strip_keeps)
  then show ?thesis by (simp add: TrimSpace_def)
qed

lemma slash_no_space: "\<forall>e\<in>set space_encodings. CHR ''/'' \<notin> set e"
  by (simp add: space_encodings_def)

lemma TrimSpace_slash: "CHR ''/'' \<in> set s \<Longrightarrow> CHR ''/'' \<in> set (TrimSpace s)"
  using TrimSpace_keeps slash_no_space by blast

lemma space_ends: "\<forall>e\<in>set space_encodings. e \<noteq> [] \<and> \<not> number_char (hd e) \<and> \<not> number_char (last e)"
  by (simp add: space_encodings_def number_char_def is_digit_def)

lemma lead_0_hd:
  assumes "s \<noteq> []" and "\<forall>e\<in>set es. e \<noteq> [] \<and> hd e \<noteq> hd s"
  shows "lead es s = 0"
proof (rule ccontr)
  assume "lead es s \<noteq> 0"
  from lead_prefix[OF this] obtain e where "e \<in> set es" "prefix e s" "e \<noteq> []" by blast
  with assms show False by (cases e; cases s) (auto simp: prefix_def)
qed

lemma TrimSpace_id:
  assumes "s \<noteq> []" and "number_char (hd s)" and "number_char (last s)"
  shows "TrimSpace s = s"
proof -
  have 1: "strip space_encodings s = s"
    using assms(1,2) space_ends by (intro lead_0_strip lead_0_hd) auto
  have "\<forall>e\<in>set (map rev space_encodings). e \<noteq> [] \<and> hd e \<noteq> hd (rev s)"
    using assms(1,3) space_ends by (auto simp: hd_rev)
  then have 2: "strip (map rev space_encodings) (rev s) = rev s"
    using assms(1) by (intro lead_0_strip lead_0_hd) auto
  show ?thesis by (simp add: TrimSpace_def 1 2)
qed

lemma Atoi_Some_ends:
  assumes "Atoi s = Some k"
  shows "s \<noteq> [] \<and> number_char (hd s) \<and> number_char (last s)"
proof -
  let ?ds = "if s \<noteq> [] \<and> (hd s = CHR ''-'' \<or> hd s = CHR ''+'') then tl s else s"
  from assms have ds: "?ds \<noteq> []" "list_all is_digit ?ds"
    by (auto simp: Atoi_def Let_def split: if_splits)
  then have ne: "s \<noteq> []" by (auto split: if_splits)
  from ds have "is_digit (last ?ds)" "is_digit (hd ?ds)"
    by (auto simp: list_all_iff)
  moreover have "last ?ds = last s" using ds(1) ne by (auto simp: last_tl)
  moreover have "hd s = CHR ''-'' \<or> hd s = CHR ''+'' \<or> hd ?ds = hd s" by auto
  ultimately show ?thesis using ne by (auto simp: number_char_def)
qed

lemma Atoi_Some_TrimSpace: "Atoi s = Some k \<Longrightarrow> TrimSpace s = s"
  using Atoi_Some_ends TrimSpace_id by blast

subsection \<open>Decoding what was encoded\<close>

lemma byte_of_char: "n < 256 \<Longrightarrow> (of_char (char_of n) :: nat) = n"
  by (simp add: of_char_of)

lemma mod_shift: "q < n \<Longrightarrow> (k * n + q) mod n = q" for q n k :: nat
  by simp
lemma m32: "q < 32 \<Longrightarrow> (192 + q) mod 32 = q" for q :: nat
  using mod_shift[of q 32 6] by simp
lemma m64: "m < 64 \<Longrightarrow> (128 + m) mod 64 = m" for m :: nat
  using mod_shift[of m 64 2] by simp
lemma m16: "a < 16 \<Longrightarrow> (224 + a) mod 16 = a" for a :: nat
  using mod_shift[of a 16 14] by simp
lemma m8: "a < 8 \<Longrightarrow> (240 + a) mod 8 = a" for a :: nat
  using mod_shift[of a 8 30] by simp

lemma lin3: "a * 4096 + b * 64 + c = (a * 64 + b) * 64 + c" for a b c :: nat
  by simp
lemma lin4: "a * 262144 + b * 4096 + c = (a * 64 + b) * 4096 + c" for a b c :: nat
  by simp
lemma s3: "(r div 4096) * 4096 + ((r div 64) mod 64) * 64 + r mod 64 = r" for r :: nat
proof -
  define u where "u = r div 64"
  have 1: "r div 4096 = u div 64"
    unfolding u_def by (simp add: div_mult2_eq[symmetric])
  have 2: "u div 64 * 64 + u mod 64 = u" by simp
  have 3: "u * 64 + r mod 64 = r" unfolding u_def by simp
  have "(u div 64) * 4096 + (u mod 64) * 64 + r mod 64 = (u div 64 * 64 + u mod 64) * 64 + r mod 64"
    by (rule lin3)
  also have "\<dots> = r" unfolding 2 using 3 .
  finally show ?thesis unfolding 1 u_def .
qed
lemma s4: "(r div 262144) * 262144 + ((r div 4096) mod 64) * 4096 + (((r div 64) mod 64) * 64 + r mod 64) = r" for r :: nat
proof -
  define u where "u = r div 4096"
  have 1: "r div 262144 = u div 64"
    unfolding u_def by (simp add: div_mult2_eq[symmetric])
  have 2: "u div 64 * 64 + u mod 64 = u" by simp
  have 3: "u * 4096 + (((r div 64) mod 64) * 64 + r mod 64) = r"
    unfolding u_def using s3[of r] by (simp only: add.assoc)
  have "(u div 64) * 262144 + (u mod 64) * 4096 + (((r div 64) mod 64) * 64 + r mod 64)
          = (u div 64 * 64 + u mod 64) * 4096 + (((r div 64) mod 64) * 64 + r mod 64)"
    by (rule lin4)
  also have "\<dots> = r" unfolding 2 using 3 .
  finally show ?thesis unfolding 1 u_def .
qed

lemma DecodeRune_1:
  assumes "(of_char c0 :: nat) < 0x80"
  shows "DecodeRune (c0 # t) = (of_char c0, 1)"
  using assms by (simp add: DecodeRune_def)

lemma DecodeRune_2:
  assumes "of_char c0 = s0" and "of_char c1 = s1" and "0x80 \<le> s0"
    and "first_info s0 = Some (2, lo, hi)" and "lo \<le> s1" and "s1 \<le> hi"
  shows "DecodeRune (c0 # c1 # t) = (s0 mod 32 * 64 + s1 mod 64, 2)"
  using assms by (simp add: DecodeRune_def)

lemma DecodeRune_3:
  assumes "of_char c0 = s0" and "of_char c1 = s1" and "of_char c2 = s2" and "0x80 \<le> s0"
    and "first_info s0 = Some (3, lo, hi)" and "lo \<le> s1" and "s1 \<le> hi"
    and "0x80 \<le> s2" and "s2 \<le> 0xBF"
  shows "DecodeRune (c0 # c1 # c2 # t) = (s0 mod 16 * 4096 + s1 mod 64 * 64 + s2 mod 64, 3)"
  using assms by (simp add: DecodeRune_def)

lemma DecodeRune_4:
  assumes "of_char c0 = s0" and "of_char c1 = s1" and "of_char c2 = s2" and "of_char c3 = s3"
    and "0x80 \<le> s0"
    and "first_info s0 = Some (4, lo, hi)" and "lo \<le> s1" and "s1 \<le> hi"
    and "0x80 \<le> s2" and "s2 \<le> 0xBF" and "0x80 \<le> s3" and "s3 \<le> 0xBF"
  shows "DecodeRune (c0 # c1 # c2 # c3 # t)
           = (s0 mod 8 * 262144 + s1 mod 64 * 4096 + s2 mod 64 * 64 + s3 mod 64, 4)"
  using assms by (simp add: DecodeRune_def)


lemma decode_encode_1:
  assumes "r \<le> 0x7F"
  shows "DecodeRune (EncodeRune r @ t) = (r, 1)"
proof -
  have e: "EncodeRune r = [char_of r]" using assms by (simp add: EncodeRune_def)
  have b: "(of_char (char_of r) :: nat) = r" using assms by (simp add: byte_of_char)
  show ?thesis unfolding e using DecodeRune_1[of "char_of r" t] b assms by simp
qed

lemma decode_encode_2:
  assumes "0x80 \<le> r" and "r \<le> 0x7FF"
  shows "DecodeRune (EncodeRune r @ t) = (r, 2)"
proof -
  define q where "q = r div 64"
  define m where "m = r mod 64"
  have r: "q * 64 + m = r" by (simp add: q_def m_def)
  have m: "m < 64" by (simp add: m_def)
  have q: "2 \<le> q" "q < 32" using assms by (simp_all add: q_def)
  have e: "EncodeRune r = [char_of (192 + q), char_of (128 + m)]"
    using assms by (simp add: EncodeRune_def q_def m_def)
  have b0: "(of_char (char_of (192 + q)) :: nat) = 192 + q" using q by (simp add: byte_of_char)
  have b1: "(of_char (char_of (128 + m)) :: nat) = 128 + m" using m by (simp add: byte_of_char)
  have f: "first_info (192 + q) = Some (2, 0x80, 0xBF)"
    using q by (simp add: first_info_def)
  have "DecodeRune (char_of (192 + q) # char_of (128 + m) # t)
          = ((192 + q) mod 32 * 64 + (128 + m) mod 64, 2)"
    using b0 b1 _ f by (rule DecodeRune_2) (use m in simp_all)
  then show ?thesis unfolding e using r q m by (simp add: m32 m64)
qed

lemma decode_encode_3:
  assumes "0x800 \<le> r" and "r \<le> 0xFFFF" and "valid_rune r"
  shows "DecodeRune (EncodeRune r @ t) = (r, 3)"
proof -
  define a where "a = r div 4096"
  define b where "b = (r div 64) mod 64"
  define c where "c = r mod 64"
  have r: "a * 4096 + b * 64 + c = r" unfolding a_def b_def c_def by (rule s3)
  have b: "b < 64" and c: "c < 64" by (simp_all add: b_def c_def)
  have a: "a < 16" using assms(2) by (simp add: a_def)
  have ns: "\<not> (r > 0x10FFFF \<or> (0xD800 \<le> r \<and> r \<le> 0xDFFF))"
    using assms(2,3) unfolding valid_rune_def by linarith
  have big: "\<not> r \<le> 0x7F" "\<not> r \<le> 0x7FF" using assms(1) by simp_all
  have e: "EncodeRune r = [char_of (224 + a), char_of (128 + b), char_of (128 + c)]"
    unfolding EncodeRune_def a_def b_def c_def using ns big assms(2) by (simp only: if_False if_True)
  have b0: "(of_char (char_of (224 + a)) :: nat) = 224 + a" using a by (simp add: byte_of_char)
  have b1: "(of_char (char_of (128 + b)) :: nat) = 128 + b" using b by (simp add: byte_of_char)
  have b2: "(of_char (char_of (128 + c)) :: nat) = 128 + c" using c by (simp add: byte_of_char)
  have lo: "a = 0 \<Longrightarrow> 32 \<le> b" using r c assms(1) by simp
  have hi: "a = 13 \<Longrightarrow> b < 32" using r b c assms(3) unfolding valid_rune_def by linarith
  obtain l h where f: "first_info (224 + a) = Some (3, l, h)" "l \<le> 128 + b" "128 + b \<le> h"
  proof (cases "a = 0 \<or> a = 13")
    case True
    then show ?thesis using lo hi b that by (auto simp: first_info_def)
  next
    case False
    then have "a \<le> 12 \<or> a = 14 \<or> a = 15" using a by linarith
    with False have "first_info (224 + a) = Some (3, 128, 191)"
      by (simp add: first_info_def)
    then show ?thesis using b that[of 128 191] by simp
  qed
  have "DecodeRune (char_of (224 + a) # char_of (128 + b) # char_of (128 + c) # t)
          = ((224 + a) mod 16 * 4096 + (128 + b) mod 64 * 64 + (128 + c) mod 64, 3)"
    using b0 b1 b2 _ f by (rule DecodeRune_3) (use c in simp_all)
  then show ?thesis unfolding e using r a b c by (simp add: m16 m64)
qed

lemma decode_encode_4:
  assumes "0x10000 \<le> r" and "r \<le> 0x10FFFF"
  shows "DecodeRune (EncodeRune r @ t) = (r, 4)"
proof -
  define a where "a = r div 262144"
  define b where "b = (r div 4096) mod 64"
  define c where "c = (r div 64) mod 64"
  define d where "d = r mod 64"
  have r: "a * 262144 + b * 4096 + (c * 64 + d) = r"
    unfolding a_def b_def c_def d_def by (rule s4)
  have b: "b < 64" and c: "c < 64" and d: "d < 64" by (simp_all add: b_def c_def d_def)
  have a: "a \<le> 4" using assms(2) by (simp add: a_def)
  have e: "EncodeRune r
             = [char_of (240 + a), char_of (128 + b), char_of (128 + c), char_of (128 + d)]"
    using assms by (simp add: EncodeRune_def a_def b_def c_def d_def)
  have b0: "(of_char (char_of (240 + a)) :: nat) = 240 + a" using a by (simp add: byte_of_char)
  have b1: "(of_char (char_of (128 + b)) :: nat) = 128 + b" using b by (simp add: byte_of_char)
  have b2: "(of_char (char_of (128 + c)) :: nat) = 128 + c" using c by (simp add: byte_of_char)
  have b3: "(of_char (char_of (128 + d)) :: nat) = 128 + d" using d by (simp add: byte_of_char)
  have lo: "a = 0 \<Longrightarrow> 16 \<le> b" using r c d assms(1) by simp
  have hi: "a = 4 \<Longrightarrow> b < 16" using r c d assms(2) by simp
  obtain l h where f: "first_info (240 + a) = Some (4, l, h)" "l \<le> 128 + b" "128 + b \<le> h"
  proof (cases "a = 0 \<or> a = 4")
    case True
    then show ?thesis using lo hi b that by (auto simp: first_info_def)
  next
    case False
    then have "1 \<le> a \<and> a \<le> 3" using a by linarith
    with False have "first_info (240 + a) = Some (4, 128, 191)"
      by (simp add: first_info_def)
    then show ?thesis using b that[of 128 191] by simp
  qed
  have "DecodeRune (char_of (240 + a) # char_of (128 + b) # char_of (128 + c)
                      # char_of (128 + d) # t)
          = ((240 + a) mod 8 * 262144 + (128 + b) mod 64 * 4096 + (128 + c) mod 64 * 64
               + (128 + d) mod 64, 4)"
    using b0 b1 b2 b3 _ f by (rule DecodeRune_4) (use c d in simp_all)
  then show ?thesis unfolding e using r a b c d by (simp add: m8 m64)
qed


lemma first_info_cases:
  assumes "first_info s0 = Some (sz, lo, hi)"
  obtains (two) "sz = 2" "lo = 0x80" "hi = 0xBF"
   | (threeE0) "sz = 3" "s0 = 0xE0" "lo = 0xA0" "hi = 0xBF"
   | (threeED) "sz = 3" "s0 = 0xED" "lo = 0x80" "hi = 0x9F"
   | (three) "sz = 3" "0xE1 \<le> s0" "s0 \<le> 0xEF" "s0 \<noteq> 0xED" "lo = 0x80" "hi = 0xBF"
   | (fourF0) "sz = 4" "s0 = 0xF0" "lo = 0x90" "hi = 0xBF"
   | (fourF4) "sz = 4" "s0 = 0xF4" "lo = 0x80" "hi = 0x8F"
   | (four) "sz = 4" "0xF1 \<le> s0" "s0 \<le> 0xF3" "lo = 0x80" "hi = 0xBF"
  using assms by (auto simp: first_info_def split: if_splits)

lemma cont_mod: "128 \<le> x \<Longrightarrow> x \<le> 191 \<Longrightarrow> x mod 64 = x - 128" for x :: nat
  using m64[of "x - 128"] by simp

lemma lead3_mod: "224 \<le> x \<Longrightarrow> x \<le> 239 \<Longrightarrow> x mod 16 = x - 224" for x :: nat
  using m16[of "x - 224"] by simp

lemma lead4_mod: "240 \<le> x \<Longrightarrow> x \<le> 247 \<Longrightarrow> x mod 8 = x - 240" for x :: nat
  using m8[of "x - 240"] by simp

lemma valid_2: "valid_rune (x mod 32 * 64 + y mod 64)" for x y :: nat
proof -
  have "x mod 32 < 32" "y mod 64 < 64" by simp_all
  then have "x mod 32 * 64 + y mod 64 < 0xD800" by linarith
  then show ?thesis by (simp add: valid_rune_def)
qed

lemma valid_3:
  assumes "first_info s0 = Some (3, lo, hi)" and "lo \<le> s1" and "s1 \<le> hi"
    and "128 \<le> s2" and "s2 \<le> 191"
  shows "valid_rune (s0 mod 16 * 4096 + s1 mod 64 * 64 + s2 mod 64)"
proof -
  have c: "s2 mod 64 < 64" "s1 mod 64 < 64" by simp_all
  from assms(1) show ?thesis
  proof (cases rule: first_info_cases)
    case threeE0
    then have "s0 mod 16 = 0" by simp
    with c show ?thesis unfolding valid_rune_def by linarith
  next
    case threeED
    then have "s0 mod 16 = 13" by simp
    moreover have "s1 mod 64 = s1 - 128" using threeED assms(2,3) by (intro cont_mod) simp_all
    then have "s1 mod 64 < 32" using threeED assms(2,3) by simp
    ultimately show ?thesis using c unfolding valid_rune_def by linarith
  next
    case three
    then have a: "s0 mod 16 = s0 - 224" by (intro lead3_mod) simp_all
    show ?thesis
    proof (cases "s0 \<le> 0xEC")
      case True
      with a three have "s0 mod 16 \<le> 12" by simp
      with c show ?thesis unfolding valid_rune_def by linarith
    next
      case False
      with a three have "14 \<le> s0 mod 16" "s0 mod 16 \<le> 15" by simp_all
      with c show ?thesis unfolding valid_rune_def by linarith
    qed
  qed simp_all
qed

lemma valid_4:
  assumes "first_info s0 = Some (4, lo, hi)" and "lo \<le> s1" and "s1 \<le> hi"
    and "128 \<le> s2" and "s2 \<le> 191" and "128 \<le> s3" and "s3 \<le> 191"
  shows "valid_rune (s0 mod 8 * 262144 + s1 mod 64 * 4096 + s2 mod 64 * 64 + s3 mod 64)"
proof -
  have c: "s3 mod 64 < 64" "s2 mod 64 < 64" "s1 mod 64 < 64" by simp_all
  from assms(1) show ?thesis
  proof (cases rule: first_info_cases)
    case fourF0
    then have "s0 mod 8 = 0" by simp
    moreover have "s1 mod 64 = s1 - 128" using fourF0 assms(2,3) by (intro cont_mod) simp_all
    then have "16 \<le> s1 mod 64" using fourF0 assms(2,3) by simp
    ultimately show ?thesis using c unfolding valid_rune_def by linarith
  next
    case fourF4
    then have "s0 mod 8 = 4" by simp
    moreover have "s1 mod 64 = s1 - 128" using fourF4 assms(2,3) by (intro cont_mod) simp_all
    then have "s1 mod 64 < 16" using fourF4 assms(2,3) by simp
    ultimately show ?thesis using c unfolding valid_rune_def by linarith
  next
    case four
    then have a: "s0 mod 8 = s0 - 240" by (intro lead4_mod) simp_all
    with four have "1 \<le> s0 mod 8" "s0 mod 8 \<le> 3" by simp_all
    with c show ?thesis unfolding valid_rune_def by linarith
  qed simp_all
qed

lemma valid_RuneError: "valid_rune RuneError"
  by (simp add: valid_rune_def RuneError_def)

lemma DecodeRune_valid: "valid_rune (fst (DecodeRune s))"
proof (cases s)
  case Nil
  then show ?thesis by (simp add: DecodeRune_def valid_RuneError)
next
  case (Cons c0 t)
  define s0 :: nat where "s0 = of_char c0"
  show ?thesis
  proof (cases "s0 < 0x80")
    case True
    then show ?thesis unfolding Cons s0_def
      by (simp add: DecodeRune_1 valid_rune_def)
  next
    case False
    show ?thesis
    proof (cases "first_info s0")
      case None
      with False show ?thesis unfolding Cons
        by (simp add: DecodeRune_def s0_def valid_RuneError)
    next
      case (Some info)
      then obtain sz lo hi where f: "first_info s0 = Some (sz, lo, hi)"
        by (cases info) auto
      then have sz: "sz = 2 \<or> sz = 3 \<or> sz = 4"
        by (auto simp: first_info_def split: if_splits)
      have d: "fst (DecodeRune s) =
         (if length s < sz then RuneError
          else if of_char (s ! 1) < lo \<or> hi < of_char (s ! 1) then RuneError
          else if sz \<le> 2 then s0 mod 32 * 64 + of_char (s ! 1) mod 64
          else if of_char (s ! 2) < (0x80::nat) \<or> 0xBF < (of_char (s ! 2) :: nat) then RuneError
          else if sz \<le> 3
            then s0 mod 16 * 4096 + of_char (s ! 1) mod 64 * 64 + of_char (s ! 2) mod 64
          else if of_char (s ! 3) < (0x80::nat) \<or> 0xBF < (of_char (s ! 3) :: nat) then RuneError
          else s0 mod 8 * 262144 + of_char (s ! 1) mod 64 * 4096
                 + of_char (s ! 2) mod 64 * 64 + of_char (s ! 3) mod 64)"
        using False f unfolding Cons DecodeRune_def s0_def
        by (simp add: Let_def)
      show ?thesis
        unfolding d using sz f valid_2 valid_3[of s0 lo hi] valid_4[of s0 lo hi] valid_RuneError
        by (auto simp: not_less)
    qed
  qed
qed


lemma decode_encode:
  assumes "valid_rune r"
  shows "\<exists>n. DecodeRune (EncodeRune r @ t) = (r, n) \<and> n = length (EncodeRune r) \<and> 0 < n"
proof -
  have le: "r \<le> 0x10FFFF" using assms unfolding valid_rune_def by linarith
  consider "r \<le> 0x7F" | "0x80 \<le> r" "r \<le> 0x7FF" | "0x800 \<le> r" "r \<le> 0xFFFF"
    | "0x10000 \<le> r"
    by linarith
  then show ?thesis
  proof cases
    case 1
    then have "length (EncodeRune r) = 1" by (simp add: EncodeRune_def)
    with decode_encode_1[OF 1, of t] show ?thesis by simp
  next
    case 2
    then have "length (EncodeRune r) = 2" by (simp add: EncodeRune_def)
    with decode_encode_2[OF 2, of t] show ?thesis by simp
  next
    case 3
    have ns: "\<not> (r > 0x10FFFF \<or> (0xD800 \<le> r \<and> r \<le> 0xDFFF))"
      using 3(2) assms unfolding valid_rune_def by linarith
    have big: "\<not> r \<le> 0x7F" "\<not> r \<le> 0x7FF" using 3(1) by simp_all
    have "length (EncodeRune r) = 3"
      unfolding EncodeRune_def using ns big 3(2) by (simp only: if_False if_True) simp
    with decode_encode_3[OF 3 assms, of t] show ?thesis by simp
  next
    case 4
    then have "length (EncodeRune r) = 4" using le by (simp add: EncodeRune_def)
    with decode_encode_4[OF 4 le, of t] show ?thesis by simp
  qed
qed

lemma runes_Nil: "runes [] = []"
  by (simp add: runes.simps)

lemma runes_encode:
  assumes "valid_rune r"
  shows "runes (EncodeRune r @ t) = r # runes t"
proof -
  from decode_encode[OF assms, of t] obtain n where
    n: "DecodeRune (EncodeRune r @ t) = (r, n)" "n = length (EncodeRune r)" "0 < n"
    by blast
  then have "EncodeRune r @ t \<noteq> []" by auto
  then have "runes (EncodeRune r @ t)
               = fst (DecodeRune (EncodeRune r @ t))
                   # runes (drop (snd (DecodeRune (EncodeRune r @ t))) (EncodeRune r @ t))"
    by (subst runes.simps) simp
  with n show ?thesis by simp
qed

lemma runes_string_of_runes:
  "\<forall>r\<in>set rs. valid_rune r \<Longrightarrow> runes (string_of_runes rs @ t) = rs @ runes t"
  by (induction rs) (simp_all add: string_of_runes_def runes_encode)

lemma runes_valid: "\<forall>r\<in>set (runes s). valid_rune r"
proof (induction s rule: runes.induct)
  case (1 s)
  show ?case
  proof (cases "s = []")
    case True
    then show ?thesis by (simp add: runes_Nil)
  next
    case False
    then have "runes s = fst (DecodeRune s) # runes (drop (snd (DecodeRune s)) s)"
      by (subst runes.simps) simp
    with 1[OF False] DecodeRune_valid[of s] show ?thesis by simp
  qed
qed

lemma runes_dots: "runes ''...'' = [46, 46, 46]"
proof -
  have v: "valid_rune 46" by (simp add: valid_rune_def)
  have e: "EncodeRune 46 = ''.''" by code_simp
  have "runes (EncodeRune 46 @ EncodeRune 46 @ EncodeRune 46 @ []) = [46, 46, 46]"
    by (simp only: runes_encode[OF v] runes_Nil)
  then show ?thesis by (simp add: e)
qed

lemma runes_truncated:
  "runes (string_of_runes (take k (runes s)) @ ''...'') = take k (runes s) @ [46, 46, 46]"
proof -
  have "\<forall>r\<in>set (take k (runes s)). valid_rune r"
    using runes_valid[of s] by (auto dest: in_set_takeD)
  then show ?thesis by (simp only: runes_string_of_runes runes_dots)
qed

subsection \<open>Strings of valid UTF-8\<close>

lemma runes_string_of_runes_id:
  assumes "\<forall>r\<in>set rs. valid_rune r"
  shows "runes (string_of_runes rs) = rs"
  using runes_string_of_runes[OF assms, of "[]"] by (simp add: runes_Nil)

lemma coerce_idem: "coerce (coerce s) = coerce s"
  unfolding coerce_def by (simp only: runes_string_of_runes_id[OF runes_valid])

lemma valid_utf8_Nil: "valid_utf8 []"
  by (simp add: valid_utf8_def coerce_def runes_Nil string_of_runes_def)

lemma valid_utf8_append:
  assumes "valid_utf8 a" and "valid_utf8 b"
  shows "valid_utf8 (a @ b)"
proof -
  have a: "string_of_runes (runes a) = a" and b: "string_of_runes (runes b) = b"
    using assms by (simp_all add: valid_utf8_def coerce_def)
  have "runes (string_of_runes (runes a) @ b) = runes a @ runes b"
    using runes_valid[of a] by (rule runes_string_of_runes)
  then have "runes (a @ b) = runes a @ runes b" by (simp only: a)
  then have "coerce (a @ b) = string_of_runes (runes a) @ string_of_runes (runes b)"
    by (simp add: coerce_def string_of_runes_def)
  then show ?thesis by (simp only: a b valid_utf8_def)
qed

lemma valid_utf8_byte:
  assumes "(of_char c :: nat) < 128"
  shows "valid_utf8 [c]"
proof -
  have "runes [c] = [of_char c]"
    using DecodeRune_1[of c "[]"] assms by (subst runes.simps) (simp add: runes_Nil)
  moreover have "EncodeRune (of_char c) = [c]"
    using assms by (simp add: EncodeRune_def)
  ultimately show ?thesis
    by (simp add: valid_utf8_def coerce_def string_of_runes_def)
qed

lemma valid_utf8_ascii:
  "\<forall>c\<in>set s. (of_char c :: nat) < 128 \<Longrightarrow> valid_utf8 s"
proof (induction s)
  case Nil
  show ?case by (rule valid_utf8_Nil)
next
  case (Cons c s)
  then have "valid_utf8 [c]" "valid_utf8 s" by (simp_all add: valid_utf8_byte)
  then have "valid_utf8 ([c] @ s)" by (rule valid_utf8_append)
  then show ?case by simp
qed

lemma Atoi_Some_valid_utf8:
  assumes "Atoi s = Some k"
  shows "valid_utf8 s"
proof -
  let ?ds = "if s \<noteq> [] \<and> (hd s = CHR ''-'' \<or> hd s = CHR ''+'') then tl s else s"
  from assms have ds: "list_all is_digit ?ds"
    by (auto simp: Atoi_def Let_def split: if_splits)
  have "\<forall>c\<in>set s. number_char c"
  proof (cases "s \<noteq> [] \<and> (hd s = CHR ''-'' \<or> hd s = CHR ''+'')")
    case True
    then obtain c t where s: "s = c # t" "c = CHR ''-'' \<or> c = CHR ''+''"
      by (cases s) auto
    with ds True show ?thesis by (auto simp: number_char_def list_all_iff)
  next
    case False
    with ds show ?thesis by (auto simp: number_char_def list_all_iff)
  qed
  moreover have "(of_char c :: nat) < 128" if "number_char c" for c
    using that by (auto simp: number_char_def is_digit_def)
  ultimately show ?thesis by (intro valid_utf8_ascii) blast
qed

lemma Load_valid_utf8:
  assumes "Load d = Inr repos"
  shows "map coerce repos = repos"
  using assms
  by (auto simp: Load_def coerce_idem runes_Nil
           split: file_state.splits contents.splits)

section \<open>Properties of the store\<close>

subsection \<open>Loading\<close>

text \<open>
  C1, as stated, fails: \<^verbatim>\<open>Load\<close> swallows one error of \<^verbatim>\<open>Decode\<close> only, \<^verbatim>\<open>io.EOF\<close>, which
  the decoder returns for a file without any JSON value. The file \<^verbatim>\<open>["a",\<close> is malformed
  JSON on which \<^verbatim>\<open>Decode\<close> returns \<^verbatim>\<open>unexpected EOF\<close>, and \<^verbatim>\<open>Load\<close> returns that error, not
  the empty sequence.
\<close>

theorem Load_malformed_counterexample:
  "Load \<lparr>repo_file = File (Malformed ''unexpected EOF''), fault = None\<rparr>
     = Inl (ErrDecode ''unexpected EOF'')
   \<and> Load \<lparr>repo_file = File (Malformed ''unexpected EOF''), fault = None\<rparr> \<noteq> Inr []"
  by (simp add: Load_def)

text \<open>
  C1, amended: for a missing file, and for a file on which \<^verbatim>\<open>Decode\<close> returns \<^verbatim>\<open>io.EOF\<close> (an
  empty or blank file), \<^verbatim>\<open>Load\<close> returns the empty sequence and no error; when \<^verbatim>\<open>Decode\<close>
  returns an error other than \<^verbatim>\<open>io.EOF\<close>, \<^verbatim>\<open>Load\<close> returns that error. Over all states of the
  file, \<^verbatim>\<open>Load\<close> returns the empty sequence exactly when the file is missing, \<^verbatim>\<open>Decode\<close>
  returns \<^verbatim>\<open>io.EOF\<close>, or \<^verbatim>\<open>Decode\<close> succeeds with no strings; it never does so after another
  error of \<^verbatim>\<open>Decode\<close>.
\<close>

theorem Load_missing_blank_malformed:
  "Load \<lparr>repo_file = Missing, fault = f\<rparr> = Inr []
   \<and> Load \<lparr>repo_file = File Blank, fault = f\<rparr> = Inr []
   \<and> Load \<lparr>repo_file = File (Malformed msg), fault = f\<rparr> = Inl (ErrDecode msg)
   \<and> (Load d = Inr [])
       = (repo_file d = Missing \<or> repo_file d = File Blank \<or> repo_file d = File (Encoded []))"
proof -
  have "(Load d = Inr [])
       = (repo_file d = Missing \<or> repo_file d = File Blank \<or> repo_file d = File (Encoded []))"
  proof (cases "repo_file d")
    case Missing
    then show ?thesis by (simp add: Load_def)
  next
    case (Unreadable msg)
    then show ?thesis by (simp add: Load_def)
  next
    case (File c)
    then show ?thesis by (cases c) (simp_all add: Load_def)
  qed
  then show ?thesis by (simp add: Load_def)
qed

subsection \<open>Adding: the check for a slash\<close>

lemma validate_no_slash:
  assumes "\<not> Contains (repo_portion n) ''/''"
  shows "\<exists>e. validate n = Some e \<and> is_validation_error e
             \<and> (\<not> Contains n ''#'' \<longrightarrow> e = ErrNotOwnerRepo)"
proof (cases "Contains n ''#''")
  case True
  with assms have "\<not> Contains (TrimSpace (SplitN2 n (CHR ''#'') ! 0)) ''/''"
    by (simp add: repo_portion_def)
  with True show ?thesis
    by (simp add: validate_def Let_def)
next
  case False
  with assms show ?thesis
    by (simp add: validate_def repo_portion_def)
qed

text \<open>
  C2, amended: for every input whose normalized form has a repo portion without any
  \<^verbatim>\<open>/\<close>, \<^verbatim>\<open>Add\<close> fails with an error of its checks and leaves the store as it was; the error
  is \<^verbatim>\<open>repo must be in owner/repo format\<close> when the input is not empty and its normalized
  form has no \<^verbatim>\<open>#\<close>. (Nothing is said about a repo portion with two or more slashes.)
\<close>

theorem Add_no_slash_rejected:
  assumes "\<not> Contains (repo_portion (normalize_url parse (TrimSpace raw))) ''/''"
  shows "\<exists>e. Add parse eqf raw d = (Some e, d) \<and> is_validation_error e
             \<and> (TrimSpace raw \<noteq> [] \<and> \<not> Contains (normalize_url parse (TrimSpace raw)) ''#''
                  \<longrightarrow> e = ErrNotOwnerRepo)"
proof (cases "TrimSpace raw = []")
  case True
  then show ?thesis by (simp add: Add_def)
next
  case False
  from validate_no_slash[OF assms] obtain e where
    e: "validate (normalize_url parse (TrimSpace raw)) = Some e" "is_validation_error e"
       "\<not> Contains (normalize_url parse (TrimSpace raw)) ''#'' \<longrightarrow> e = ErrNotOwnerRepo"
    by blast
  with False show ?thesis by (simp add: Add_def Let_def)
qed

text \<open>
  C2, as stated, fails: the check is \<^verbatim>\<open>strings.Contains(repoPart, "/")\<close>, so a repo portion
  with two slashes is accepted and stored.
\<close>

theorem Add_two_slashes_counterexample:
  "Add plain_url_path ascii_fold ''a/b/c'' empty_disk = (None, disk_of [''a/b/c''])"
  by code_simp

theorem Add_no_slash_rejected_witness:
  "\<not> Contains (repo_portion (normalize_url plain_url_path (TrimSpace ''foo''))) ''/''
   \<and> Add plain_url_path ascii_fold ''foo'' empty_disk = (Some ErrNotOwnerRepo, empty_disk)"
proof -
  have h: "\<not> Contains (repo_portion (normalize_url plain_url_path (TrimSpace ''foo''))) ''/''"
    by code_simp
  have n: "TrimSpace ''foo'' \<noteq> [] \<and> \<not> Contains (normalize_url plain_url_path (TrimSpace ''foo'')) ''#''"
    by code_simp
  from Add_no_slash_rejected[OF h, of ascii_fold empty_disk] n h show ?thesis by auto
qed


subsection \<open>Adding: the check of the suffix\<close>

lemma validate_suffix:
  assumes "n = rp @ ''#'' @ suf" "CHR ''#'' \<notin> set rp" "TrimSpace rp \<noteq> []"
  shows "validate n =
           (if TrimSpace suf = [] then Some ErrInvalidFormat
            else if Atoi (TrimSpace suf) = None then Some (ErrInvalidNumber (TrimSpace suf))
            else if \<not> Contains (TrimSpace rp) ''/'' then Some ErrNotOwnerRepo
            else None)"
proof -
  have c: "Contains n ''#''" using assms(1) by (simp add: Contains_single)
  have s: "SplitN2 n (CHR ''#'') = [rp, suf]"
    using assms(1,2) SplitN2_at[of "CHR ''#''" rp suf] by simp
  show ?thesis using c s assms(3) by (simp add: validate_def Let_def)
qed

text \<open>
  C3, amended: for every input whose normalized form is \<^verbatim>\<open>owner/name#suffix\<close>, \<^verbatim>\<open>Add\<close>
  succeeds only when the trimmed suffix parses as an integer of the range of \<^verbatim>\<open>int\<close> (a
  sign is accepted); it fails with the invalid-number error when the trimmed suffix is
  not empty and does not parse, and with the invalid-format error when it is empty.
\<close>

theorem Add_suffix_checked:
  assumes "normalize_url parse (TrimSpace raw) = rp @ ''#'' @ suf"
    and "CHR ''#'' \<notin> set rp" and "TrimSpace rp \<noteq> []" and "TrimSpace raw \<noteq> []"
  shows "(fst (Add parse eqf raw d) = None \<longrightarrow> (\<exists>n. Atoi (TrimSpace suf) = Some n))
       \<and> (TrimSpace suf \<noteq> [] \<and> Atoi (TrimSpace suf) = None
            \<longrightarrow> Add parse eqf raw d = (Some (ErrInvalidNumber (TrimSpace suf)), d))
       \<and> (TrimSpace suf = [] \<longrightarrow> Add parse eqf raw d = (Some ErrInvalidFormat, d))"
proof -
  define n where "n = rp @ ''#'' @ suf"
  have v: "validate n =
           (if TrimSpace suf = [] then Some ErrInvalidFormat
            else if Atoi (TrimSpace suf) = None then Some (ErrInvalidNumber (TrimSpace suf))
            else if \<not> Contains (TrimSpace rp) ''/'' then Some ErrNotOwnerRepo
            else None)"
    using validate_suffix[OF n_def assms(2) assms(3)] .
  have nn: "normalize_url parse (TrimSpace raw) = n"
    using assms(1) by (simp add: n_def)
  have a: "Add parse eqf raw d =
        (case validate n of
           Some e \<Rightarrow> (Some e, d)
         | None \<Rightarrow>
            (case Load d of
               Inl e \<Rightarrow> (Some e, d)
             | Inr repos \<Rightarrow>
                 if list_ex (\<lambda>r. eqf r n) repos then (Some ErrExists, d)
                 else Save (repos @ [n]) d))"
    using nn assms(4) by (simp add: Add_def Let_def)
  show ?thesis
    unfolding a v by (auto split: if_splits)
qed

text \<open>
  C3, as stated, fails: \<^verbatim>\<open>strconv.Atoi\<close> accepts a sign, and nothing in \<^verbatim>\<open>Add\<close> compares the
  number with zero, so \<^verbatim>\<open>owner/name#-5\<close> is stored.
\<close>

theorem Add_negative_suffix_counterexample:
  "Add plain_url_path ascii_fold ''owner/name#-5'' empty_disk
     = (None, disk_of [''owner/name#-5''])"
  by code_simp

theorem Add_suffix_checked_witness:
  "normalize_url plain_url_path (TrimSpace ''owner/name#abc'') = ''owner/name'' @ ''#'' @ ''abc''
   \<and> CHR ''#'' \<notin> set ''owner/name'' \<and> TrimSpace ''owner/name'' \<noteq> []
   \<and> TrimSpace ''owner/name#abc'' \<noteq> []
   \<and> Add plain_url_path ascii_fold ''owner/name#abc'' empty_disk
        = (Some (ErrInvalidNumber ''abc''), empty_disk)"
proof -
  have h1: "normalize_url plain_url_path (TrimSpace ''owner/name#abc'')
              = ''owner/name'' @ ''#'' @ ''abc''"
    by code_simp
  have h2: "CHR ''#'' \<notin> set ''owner/name''" by simp
  have h3: "TrimSpace ''owner/name'' \<noteq> []" by code_simp
  have h4: "TrimSpace ''owner/name#abc'' \<noteq> []" by code_simp
  have t: "TrimSpace ''abc'' = ''abc''" by code_simp
  have n: "Atoi ''abc'' = None" by code_simp
  from Add_suffix_checked[OF h1 h2 h3 h4, of ascii_fold empty_disk] t n
  have "Add plain_url_path ascii_fold ''owner/name#abc'' empty_disk
        = (Some (ErrInvalidNumber ''abc''), empty_disk)"
    by simp
  with h1 h2 h3 h4 show ?thesis by blast
qed

subsection \<open>Adding: duplicates\<close>



subsection \<open>Removing\<close>

text \<open>
  C6: for an input that is not empty after trimming and a store that loads as \<open>repos\<close>:
  when no element matches (\<^verbatim>\<open>EqualFold\<close> or equality), \<^verbatim>\<open>Remove\<close> fails with
  \<^verbatim>\<open>repo not found\<close> and the store is unchanged; when an element matches and the file can
  be written, \<^verbatim>\<open>Remove\<close> succeeds and the store then loads as \<open>repos\<close> without its first
  matching element, one element shorter.
\<close>

theorem Remove_first_match:
  assumes "TrimSpace raw \<noteq> []" and "Load d = Inr repos"
  shows "((\<forall>r\<in>set repos. \<not> (eqf r (TrimSpace raw) \<or> r = TrimSpace raw))
            \<longrightarrow> Remove eqf raw d = (Some ErrNotFound, d))
       \<and> ((\<exists>r\<in>set repos. eqf r (TrimSpace raw) \<or> r = TrimSpace raw) \<and> fault d = None
            \<longrightarrow> (\<exists>i<length repos.
                   (eqf (repos ! i) (TrimSpace raw) \<or> repos ! i = TrimSpace raw)
                 \<and> (\<forall>j<i. \<not> (eqf (repos ! j) (TrimSpace raw) \<or> repos ! j = TrimSpace raw))
                 \<and> fst (Remove eqf raw d) = None
                 \<and> Load (snd (Remove eqf raw d)) = Inr (take i repos @ drop (Suc i) repos)
                 \<and> length (take i repos @ drop (Suc i) repos) + 1 = length repos))"
proof (intro conjI impI)
  assume "\<forall>r\<in>set repos. \<not> (eqf r (TrimSpace raw) \<or> r = TrimSpace raw)"
  then have "first_index (\<lambda>r. eqf r (TrimSpace raw) \<or> r = TrimSpace raw) repos = None"
    by (simp add: first_index_None)
  with assms show "Remove eqf raw d = (Some ErrNotFound, d)"
    by (simp add: Remove_def Let_def)
next
  let ?P = "\<lambda>r. eqf r (TrimSpace raw) \<or> r = TrimSpace raw"
  assume a: "(\<exists>r\<in>set repos. eqf r (TrimSpace raw) \<or> r = TrimSpace raw) \<and> fault d = None"
  then have "first_index ?P repos \<noteq> None"
    by (simp add: first_index_None)
  then obtain i where i: "first_index ?P repos = Some i" by blast
  then have fi: "i < length repos" "?P (repos ! i)" "\<forall>j<i. \<not> ?P (repos ! j)"
    by (simp_all add: first_index_Some)
  have v: "map coerce repos = repos" using assms(2) by (rule Load_valid_utf8)
  have "map coerce (take i repos @ drop (Suc i) repos)
          = take i (map coerce repos) @ drop (Suc i) (map coerce repos)"
    by (simp add: take_map drop_map)
  then have c: "map coerce (take i repos @ drop (Suc i) repos)
                  = take i repos @ drop (Suc i) repos"
    by (simp only: v)
  from assms i a have "Remove eqf raw d
        = (None, d\<lparr>repo_file :=
                    File (Encoded (map coerce (take i repos @ drop (Suc i) repos)))\<rparr>)"
    by (simp add: Remove_def Let_def Save_def)
  then have r: "Remove eqf raw d
        = (None, d\<lparr>repo_file := File (Encoded (take i repos @ drop (Suc i) repos))\<rparr>)"
    by (simp only: c)
  have "Load (snd (Remove eqf raw d)) = Inr (take i repos @ drop (Suc i) repos)"
    unfolding r using c by (simp add: Load_def)
  moreover have "length (take i repos @ drop (Suc i) repos) + 1 = length repos"
    using fi(1) by simp
  moreover have "fst (Remove eqf raw d) = None" unfolding r by simp
  ultimately show "\<exists>i<length repos.
                   (eqf (repos ! i) (TrimSpace raw) \<or> repos ! i = TrimSpace raw)
                 \<and> (\<forall>j<i. \<not> (eqf (repos ! j) (TrimSpace raw) \<or> repos ! j = TrimSpace raw))
                 \<and> fst (Remove eqf raw d) = None
                 \<and> Load (snd (Remove eqf raw d)) = Inr (take i repos @ drop (Suc i) repos)
                 \<and> length (take i repos @ drop (Suc i) repos) + 1 = length repos"
    using fi by blast
qed

theorem Remove_first_match_witness:
  "TrimSpace ''Owner/Name'' \<noteq> []
   \<and> Load (disk_of [''x/y'', ''owner/name'', ''OWNER/NAME''])
       = Inr [''x/y'', ''owner/name'', ''OWNER/NAME'']
   \<and> Remove ascii_fold ''Owner/Name'' (disk_of [''x/y'', ''owner/name'', ''OWNER/NAME''])
       = (None, disk_of [''x/y'', ''OWNER/NAME''])
   \<and> Remove ascii_fold ''Owner/Nam'' (disk_of [''x/y'', ''owner/name'', ''OWNER/NAME''])
       = (Some ErrNotFound, disk_of [''x/y'', ''owner/name'', ''OWNER/NAME''])"
proof -
  have h1: "TrimSpace ''Owner/Name'' \<noteq> []" by code_simp
  have h2: "Load (disk_of [''x/y'', ''owner/name'', ''OWNER/NAME''])
       = Inr [''x/y'', ''owner/name'', ''OWNER/NAME'']" by code_simp
  have r1: "Remove ascii_fold ''Owner/Name'' (disk_of [''x/y'', ''owner/name'', ''OWNER/NAME''])
       = (None, disk_of [''x/y'', ''OWNER/NAME''])" by code_simp
  have nm: "\<forall>r\<in>set [''x/y'', ''owner/name'', ''OWNER/NAME''].
              \<not> (ascii_fold r (TrimSpace ''Owner/Nam'') \<or> r = TrimSpace ''Owner/Nam'')"
    by code_simp
  have h3: "TrimSpace ''Owner/Nam'' \<noteq> []" by code_simp
  from Remove_first_match[OF h3 h2, of ascii_fold] nm
  have r2: "Remove ascii_fold ''Owner/Nam'' (disk_of [''x/y'', ''owner/name'', ''OWNER/NAME''])
       = (Some ErrNotFound, disk_of [''x/y'', ''owner/name'', ''OWNER/NAME''])" by blast
  from Remove_first_match[OF h1 h2, of ascii_fold] h1 h2 r1 r2 show ?thesis by blast
qed


subsection \<open>Adding: URLs\<close>

lemma hash_no_space: "\<forall>e\<in>set space_encodings. CHR ''#'' \<notin> set e"
  by (simp add: space_encodings_def)

lemma validate_plain:
  assumes "CHR ''#'' \<notin> set n" and "CHR ''/'' \<in> set n"
  shows "validate n = None"
  using assms by (simp add: validate_def Contains_single)

lemma validate_numbered:
  assumes "CHR ''#'' \<notin> set owner \<union> set name" and "Atoi num = Some k"
  shows "validate (owner @ ''/'' @ name @ ''#'' @ num) = None"
proof -
  have t: "TrimSpace num = num" using assms(2) by (rule Atoi_Some_TrimSpace)
  have ne: "num \<noteq> []" using Atoi_Some_ends[OF assms(2)] by simp
  have sl: "CHR ''/'' \<in> set (TrimSpace (owner @ ''/'' @ name))"
    by (rule TrimSpace_slash) simp
  then have tn: "TrimSpace (owner @ ''/'' @ name) \<noteq> []" by auto
  have nh: "CHR ''#'' \<notin> set (owner @ ''/'' @ name)" using assms(1) by simp
  have eq: "owner @ ''/'' @ name @ ''#'' @ num = (owner @ ''/'' @ name) @ ''#'' @ num"
    by simp
  have "validate (owner @ ''/'' @ name @ ''#'' @ num) =
           (if TrimSpace num = [] then Some ErrInvalidFormat
            else if Atoi (TrimSpace num) = None then Some (ErrInvalidNumber (TrimSpace num))
            else if \<not> Contains (TrimSpace (owner @ ''/'' @ name)) ''/'' then Some ErrNotOwnerRepo
            else None)"
    using validate_suffix[OF eq nh tn] .
  with t ne assms(2) sl show ?thesis by (simp add: Contains_single)
qed

lemma Add_stores:
  assumes "TrimSpace raw \<noteq> []" and "normalize_url parse (TrimSpace raw) = n"
    and "validate n = None" and "Load d = Inr repos"
    and "\<not> (\<exists>r\<in>set repos. eqf r n)" and "fault d = None" and "valid_utf8 n"
  shows "Add parse eqf raw d = (None, d\<lparr>repo_file := File (Encoded (repos @ [n]))\<rparr>)"
proof -
  have "map coerce (repos @ [n]) = repos @ [n]"
    using Load_valid_utf8[OF assms(4)] assms(7) by (simp add: valid_utf8_def)
  then show ?thesis
    using assms by (simp add: Add_def Let_def list_ex_iff Save_def)
qed

text \<open>
  What \<^verbatim>\<open>Add\<close> does with the path that \<^verbatim>\<open>url.Parse\<close> returns: of a path
  \<^verbatim>\<open>/a/b/pull/<number>\<close> (possibly with more segments) it stores \<^verbatim>\<open>a/b#<number>\<close>, of a path
  \<^verbatim>\<open>/a/b\<close> it stores \<^verbatim>\<open>a/b\<close>. For a URL with a scheme and a host, such as the spec's
  \<^verbatim>\<open>https://github.com/owner/name/pull/42\<close>, the first two segments of the path are the owner
  and the name of the repository.
\<close>

lemma Add_url_normalized:
  assumes "looks_like_url (TrimSpace raw)"
    and "parse (TrimSpace raw) = Some u_path"
    and "Split (Trim u_path (CHR ''/'')) (CHR ''/'') = owner # name # rest"
    and "CHR ''#'' \<notin> set owner \<union> set name"
    and "Load d = Inr repos" and "fault d = None"
    and "valid_utf8 owner" and "valid_utf8 name"
  shows "(\<forall>num others. rest = ''pull'' # num # others \<and> Atoi num \<noteq> None
            \<and> \<not> (\<exists>r\<in>set repos. eqf r (owner @ ''/'' @ name @ ''#'' @ num))
          \<longrightarrow> Add parse eqf raw d
                = (None, d\<lparr>repo_file :=
                            File (Encoded (repos @ [owner @ ''/'' @ name @ ''#'' @ num]))\<rparr>))
       \<and> (rest = [] \<and> \<not> (\<exists>r\<in>set repos. eqf r (owner @ ''/'' @ name))
          \<longrightarrow> Add parse eqf raw d
                = (None, d\<lparr>repo_file := File (Encoded (repos @ [owner @ ''/'' @ name]))\<rparr>))"
proof (intro conjI allI impI)
  have ne: "TrimSpace raw \<noteq> []"
    using looks_like_url_slash[OF assms(1)] by auto
  have sl: "valid_utf8 ''/''" and hs: "valid_utf8 ''#''"
    by (simp_all add: valid_utf8_byte)
  have on: "valid_utf8 (owner @ ''/'' @ name)"
    by (rule valid_utf8_append[OF assms(7) valid_utf8_append[OF sl assms(8)]])
  {
    fix num others
    assume a: "rest = ''pull'' # num # others \<and> Atoi num \<noteq> None
               \<and> \<not> (\<exists>r\<in>set repos. eqf r (owner @ ''/'' @ name @ ''#'' @ num))"
    then obtain k where k: "Atoi num = Some k" by auto
    have n: "normalize_url parse (TrimSpace raw) = owner @ ''/'' @ name @ ''#'' @ num"
      using assms(1,2,3) a k by (simp add: normalize_url_def Let_def)
    have v: "validate (owner @ ''/'' @ name @ ''#'' @ num) = None"
      using assms(4) k by (rule validate_numbered)
    from a have nd: "\<not> (\<exists>r\<in>set repos. eqf r (owner @ ''/'' @ name @ ''#'' @ num))" by simp
    have "valid_utf8 ((owner @ ''/'' @ name) @ ''#'' @ num)"
      by (rule valid_utf8_append[OF on valid_utf8_append[OF hs Atoi_Some_valid_utf8[OF k]]])
    then have vu: "valid_utf8 (owner @ ''/'' @ name @ ''#'' @ num)" by simp
    show "Add parse eqf raw d
                = (None, d\<lparr>repo_file :=
                            File (Encoded (repos @ [owner @ ''/'' @ name @ ''#'' @ num]))\<rparr>)"
      using Add_stores[where eqf=eqf and parse=parse, OF ne n v assms(5) nd assms(6) vu] .
  }
  {
    assume a: "rest = [] \<and> \<not> (\<exists>r\<in>set repos. eqf r (owner @ ''/'' @ name))"
    have n: "normalize_url parse (TrimSpace raw) = owner @ ''/'' @ name"
      using assms(1,2,3) a by (simp add: normalize_url_def Let_def)
    have v: "validate (owner @ ''/'' @ name) = None"
      using assms(4) by (intro validate_plain) auto
    from a have nd: "\<not> (\<exists>r\<in>set repos. eqf r (owner @ ''/'' @ name))" by simp
    show "Add parse eqf raw d
                = (None, d\<lparr>repo_file := File (Encoded (repos @ [owner @ ''/'' @ name]))\<rparr>)"
      using Add_stores[where eqf=eqf and parse=parse, OF ne n v assms(5) nd assms(6) on] .
  }
qed

lemma Add_url_normalized_example:
  "Add plain_url_path ascii_fold ''https://github.com/owner/name/pull/42'' empty_disk
     = (None, disk_of [''owner/name#42''])
   \<and> Add plain_url_path ascii_fold ''https://github.com/owner/name'' empty_disk
     = (None, disk_of [''owner/name''])"
proof -
  have l: "Load empty_disk = Inr []" "fault empty_disk = None" by code_simp+
  have h: "CHR ''#'' \<notin> set ''owner'' \<union> set ''name''" by simp
  have u: "valid_utf8 ''owner''" "valid_utf8 ''name''" by code_simp+
  have a1: "looks_like_url (TrimSpace ''https://github.com/owner/name/pull/42'')" by code_simp
  have a2: "plain_url_path (TrimSpace ''https://github.com/owner/name/pull/42'')
              = Some ''/owner/name/pull/42''" by code_simp
  have a3: "Split (Trim ''/owner/name/pull/42'' (CHR ''/'')) (CHR ''/'')
              = ''owner'' # ''name'' # [''pull'', ''42'']" by code_simp
  have a4: "Atoi ''42'' \<noteq> None" by code_simp
  have b1: "looks_like_url (TrimSpace ''https://github.com/owner/name'')" by code_simp
  have b2: "plain_url_path (TrimSpace ''https://github.com/owner/name'')
              = Some ''/owner/name''" by code_simp
  have b3: "Split (Trim ''/owner/name'' (CHR ''/'')) (CHR ''/'')
              = ''owner'' # ''name'' # []" by code_simp
  from Add_url_normalized[where eqf=ascii_fold and parse=plain_url_path, OF a1 a2 a3 h l u] a4
  have 1: "Add plain_url_path ascii_fold ''https://github.com/owner/name/pull/42'' empty_disk
     = (None, disk_of [''owner/name#42''])"
    by (simp add: empty_disk_def disk_of_def)
  from Add_url_normalized[where eqf=ascii_fold and parse=plain_url_path, OF b1 b2 b3 h l u]
  have 2: "Add plain_url_path ascii_fold ''https://github.com/owner/name'' empty_disk
     = (None, disk_of [''owner/name''])"
    by (simp add: empty_disk_def disk_of_def)
  from 1 2 show ?thesis by simp
qed

text \<open>
  C8 says that a URL input is stored as \<^verbatim>\<open>owner/name\<close> or \<^verbatim>\<open>owner/name#number\<close>. \<^verbatim>\<open>Add\<close> takes
  every input that contains \<^verbatim>\<open>github.com/\<close> for a URL, and its comment names the form
  \<^verbatim>\<open>github.com/owner/repo\<close>. But \<^verbatim>\<open>url.Parse\<close> reads an input without a scheme as a relative
  reference, whose path starts with the host, and \<^verbatim>\<open>Add\<close> takes the first two segments
  whatever they are: of \<^verbatim>\<open>github.com/owner/name\<close> it stores \<^verbatim>\<open>github.com/owner\<close>, and of
  \<^verbatim>\<open>github.com/owner/name/pull/42\<close> as well, since the third segment is then not \<^verbatim>\<open>pull\<close>.
\<close>

theorem Add_schemeless_url_stores_host:
  "loose_url_path ''github.com/owner/name'' = Some ''github.com/owner/name''
   \<and> Add loose_url_path ascii_fold ''github.com/owner/name'' empty_disk
       = (None, disk_of [''github.com/owner''])
   \<and> Add loose_url_path ascii_fold ''github.com/owner/name/pull/42'' empty_disk
       = (None, disk_of [''github.com/owner''])"
  by code_simp

subsection \<open>Adding: a pull-request URL without a number\<close>





section \<open>Properties of \<^verbatim>\<open>fetchPRs\<close>\<close>





section \<open>Properties of the fan-out\<close>

lemma Repo_mk_result: "Repo (mk_result repo r) = repo"
  by (cases r) (simp_all add: mk_result_def)

lemma fetched_mk_result:
  "fetchPRs nw repo token = Return r \<Longrightarrow> fetched nw token (mk_result repo r)"
  by (simp add: fetched_def Repo_mk_result)

lemma fan_run_invariant:
  assumes "(fan_step nw token)\<^sup>*\<^sup>* s s'"
  shows "s = Running p ch \<Longrightarrow> s' = Running p' ch' \<Longrightarrow>
         \<exists>new. ch' = ch @ new \<and> mset p = mset (map Repo new) + mset p'
              \<and> (\<forall>res\<in>set new. fetched nw token res)"
  using assms
proof (induction arbitrary: p' ch' rule: rtranclp_induct)
  case base
  then show ?case by simp
next
  case (step y z)
  from step.hyps(2) step.prems(2) obtain repo r before after ch0 where
    y: "y = Running (before @ repo # after) ch0" and
    f: "fetchPRs nw repo token = Return r" and
    z: "p' = before @ after" "ch' = ch0 @ [mk_result repo r]"
    by (auto elim: fan_step.cases)
  from step.IH[OF step.prems(1) y] obtain new where
    new: "ch0 = ch @ new" "mset p = mset (map Repo new) + mset (before @ repo # after)"
         "\<forall>res\<in>set new. fetched nw token res"
    by blast
  let ?new = "new @ [mk_result repo r]"
  have "ch' = ch @ ?new" using z new by simp
  moreover have "mset p = mset (map Repo ?new) + mset p'"
    using new(2) z by (simp add: Repo_mk_result)
  moreover have "\<forall>res\<in>set ?new. fetched nw token res"
    using new(3) fetched_mk_result[OF f] by simp
  ultimately show ?case by blast
qed

lemma collects_one_per_ref:
  assumes "collects nw token repos results"
  shows "mset (map Repo results) = mset repos \<and> length results = length repos
       \<and> (\<forall>res\<in>set results. fetched nw token res)"
proof -
  from assms fan_run_invariant[of nw token "Running repos []" "Running [] results" repos "[]" "[]" results]
  have m: "mset repos = mset (map Repo results)" and f: "\<forall>res\<in>set results. fetched nw token res"
    by (auto simp: collects_def)
  from m have "size (mset repos) = size (mset (map Repo results))" by simp
  then have "length repos = length results" by simp
  with m f show ?thesis by simp
qed

lemma fan_run_in_order:
  assumes "\<forall>repo\<in>set p. fetchPRs nw repo token \<noteq> Panic"
  shows "\<exists>new. (fan_step nw token)\<^sup>*\<^sup>* (Running p ch) (Running [] (ch @ new))"
  using assms
proof (induction p arbitrary: ch)
  case Nil
  have "(fan_step nw token)\<^sup>*\<^sup>* (Running [] ch) (Running [] (ch @ []))" by simp
  then show ?case by blast
next
  case (Cons repo p)
  then obtain r where r: "fetchPRs nw repo token = Return r"
    by (cases "fetchPRs nw repo token") auto
  have "fan_step nw token (Running ([] @ repo # p) ch) (Running ([] @ p) (ch @ [mk_result repo r]))"
    using r by (rule fan_step.send)
  then have 1: "fan_step nw token (Running (repo # p) ch) (Running p (ch @ [mk_result repo r]))"
    by simp
  from Cons obtain new where
    "(fan_step nw token)\<^sup>*\<^sup>* (Running p (ch @ [mk_result repo r]))
        (Running [] ((ch @ [mk_result repo r]) @ new))"
    by fastforce
  with 1 have "(fan_step nw token)\<^sup>*\<^sup>* (Running (repo # p) ch)
        (Running [] (ch @ (mk_result repo r # new)))"
    by (simp add: converse_rtranclp_into_rtranclp)
  then show ?case by blast
qed

lemma collects_exists:
  assumes "\<forall>repo\<in>set repos. fetchPRs nw repo token \<noteq> Panic"
  shows "\<exists>results. collects nw token repos results"
  using fan_run_in_order[OF assms, of "[]"] by (auto simp: collects_def)

lemma panic_crashes:
  assumes "repo \<in> set repos" and "fetchPRs nw repo token = Panic"
  shows "crashes nw token repos \<and> (\<forall>results. \<not> collects nw token repos results)"
proof
  from assms(1) obtain before after where "repos = before @ repo # after"
    by (auto dest: split_list)
  with fan_step.crash[OF assms(2), of before after "[]"]
  show "crashes nw token repos" by (auto simp: crashes_def)
next
  show "\<forall>results. \<not> collects nw token repos results"
  proof (intro allI notI)
    fix results
    assume "collects nw token repos results"
    from collects_one_per_ref[OF this]
    have m: "mset (map Repo results) = mset repos" and f: "\<forall>res\<in>set results. fetched nw token res"
      by simp_all
    from assms(1) m have "repo \<in> set (map Repo results)"
      by (metis set_mset_mset)
    then obtain res where "res \<in> set results" "Repo res = repo" by auto
    with f assms(2) show False by (auto simp: fetched_def)
  qed
qed

subsection \<open>The example of the spec: three pull requests and a 404\<close>

lemma fetch_a: "fetchPRs mock_net ''acme/a'' [] = Return (Inr three_pulls)"
  by code_simp

lemma fetch_b:
  "fetchPRs mock_net ''acme/b'' [] = Return (Inl (ErrAPI ''404 Not Found'' ''Not Found''))"
  by code_simp

lemma fetch_bad: "fetchPRs mock_net ''a/%zz'' [] = Panic"
  by code_simp

lemma Error_b: "Error (ErrAPI ''404 Not Found'' ''Not Found'') = ''github API error: 404 Not Found: Not Found''"
  by code_simp

lemma mock_collects:
  "collects mock_net [] [''acme/a'', ''acme/b''] results
     \<longleftrightarrow> results = [result_a, result_b] \<or> results = [result_b, result_a]"
proof
  assume c: "collects mock_net [] [''acme/a'', ''acme/b''] results"
  from collects_one_per_ref[OF c]
  have m: "mset (map Repo results) = mset [''acme/a'', ''acme/b'']"
    and l: "length results = 2" and f: "\<forall>res\<in>set results. fetched mock_net [] res"
    by simp_all
  from l obtain x y where r: "results = [x, y]"
    by (cases results; cases "tl results") auto
  have fa: "res = result_a" if "fetched mock_net [] res" "Repo res = ''acme/a''" for res
    using that fetch_a by (simp add: fetched_def mk_result_def result_a_def)
  have fb: "res = result_b" if "fetched mock_net [] res" "Repo res = ''acme/b''" for res
    using that fetch_b by (simp add: fetched_def mk_result_def result_b_def)
  from mset_eq_setD[OF m] r have "{Repo x, Repo y} = {''acme/a'', ''acme/b''}"
    by simp
  then have "(Repo x = ''acme/a'' \<and> Repo y = ''acme/b'')
               \<or> (Repo x = ''acme/b'' \<and> Repo y = ''acme/a'')"
    by (auto simp: doubleton_eq_iff)
  with f r fa fb show "results = [result_a, result_b] \<or> results = [result_b, result_a]"
    by auto
next
  have ra: "mk_result ''acme/a'' (Inr three_pulls) = result_a"
    by (simp add: mk_result_def result_a_def)
  have rb: "mk_result ''acme/b'' (Inl (ErrAPI ''404 Not Found'' ''Not Found'')) = result_b"
    by (simp add: mk_result_def result_b_def)
  have a1: "fan_step mock_net [] (Running ([] @ ''acme/a'' # [''acme/b'']) [])
              (Running ([] @ [''acme/b'']) ([] @ [mk_result ''acme/a'' (Inr three_pulls)]))"
    using fetch_a by (rule fan_step.send)
  have a2: "fan_step mock_net [] (Running ([] @ ''acme/b'' # []) [result_a])
              (Running ([] @ []) ([result_a] @ [mk_result ''acme/b'' (Inl (ErrAPI ''404 Not Found'' ''Not Found''))]))"
    using fetch_b by (rule fan_step.send)
  have b1: "fan_step mock_net [] (Running ([''acme/a''] @ ''acme/b'' # []) [])
              (Running ([''acme/a''] @ []) ([] @ [mk_result ''acme/b'' (Inl (ErrAPI ''404 Not Found'' ''Not Found''))]))"
    using fetch_b by (rule fan_step.send)
  have b2: "fan_step mock_net [] (Running ([] @ ''acme/a'' # []) [result_b])
              (Running ([] @ []) ([result_b] @ [mk_result ''acme/a'' (Inr three_pulls)]))"
    using fetch_a by (rule fan_step.send)
  have ab: "collects mock_net [] [''acme/a'', ''acme/b''] [result_a, result_b]"
    unfolding collects_def using a1 a2 by (simp add: ra rb)
  have ba: "collects mock_net [] [''acme/a'', ''acme/b''] [result_b, result_a]"
    unfolding collects_def using b1 b2 by (simp add: ra rb)
  assume "results = [result_a, result_b] \<or> results = [result_b, result_a]"
  with ab ba show "collects mock_net [] [''acme/a'', ''acme/b''] results" by auto
qed

subsection \<open>A reference for which no request can be built\<close>

text \<open>
  C4 says that the fan-out yields exactly one outcome per reference, whatever happens to
  the other references. Whenever every fetch returns, that is so (\<open>collects_exists\<close>,
  \<open>collects_one_per_ref\<close>, and \<open>mock_collects\<close> for the example of the spec). But
  \<^verbatim>\<open>fetchPRs\<close> drops the error of \<^verbatim>\<open>http.NewRequest\<close> and then uses the request: for the
  reference \<^verbatim>\<open>a/%zz\<close>, which \<^verbatim>\<open>Add\<close> accepts, the request is \<^verbatim>\<open>nil\<close> and the goroutine
  panics. The process ends and no outcome is collected, not even for \<^verbatim>\<open>acme/a\<close>.
\<close>

theorem cmdList_crashes_on_malformed_escape:
  "Add plain_url_path ascii_fold ''a/%zz'' (disk_of [''acme/a''])
     = (None, disk_of [''acme/a'', ''a/%zz''])
   \<and> fetchPRs mock_net ''a/%zz'' [] = Panic
   \<and> crashes mock_net [] [''acme/a'', ''a/%zz'']
   \<and> (\<forall>results. \<not> collects mock_net [] [''acme/a'', ''a/%zz''] results)"
proof -
  have a: "Add plain_url_path ascii_fold ''a/%zz'' (disk_of [''acme/a''])
             = (None, disk_of [''acme/a'', ''a/%zz''])"
    by code_simp
  have "''a/%zz'' \<in> set [''acme/a'', ''a/%zz'']" by simp
  from panic_crashes[OF this fetch_bad] a fetch_bad show ?thesis by blast
qed

section \<open>Properties of \<^verbatim>\<open>truncate\<close>\<close>

subsection \<open>Titles\<close>

text \<open>
  C7: lengths are counted in runes (\<^verbatim>\<open>[]rune(s)\<close>), not in bytes. A title of more than 60
  runes is cut to its first 57 runes followed by \<^verbatim>\<open>...\<close>: the result decodes to exactly those
  57 runes and the three dots, 60 runes in all; a title of at most 60 runes is returned as
  it is. The witness is a title whose first rune takes two bytes.
\<close>

theorem truncate_60:
  "(60 < length (runes title)
      \<longrightarrow> truncate title 60 = string_of_runes (take 57 (runes title)) @ ''...''
        \<and> runes (truncate title 60) = take 57 (runes title) @ runes ''...''
        \<and> length (runes (truncate title 60)) = 60
        \<and> suffix ''...'' (truncate title 60))
   \<and> (length (runes title) \<le> 60 \<longrightarrow> truncate title 60 = title)"
proof (intro conjI impI)
  assume l: "60 < length (runes title)"
  then show t: "truncate title 60 = string_of_runes (take 57 (runes title)) @ ''...''"
    by (simp add: truncate_def Let_def)
  show r: "runes (truncate title 60) = take 57 (runes title) @ runes ''...''"
    unfolding t by (simp only: runes_truncated runes_dots)
  have "length (runes (truncate title 60)) = length (take 57 (runes title) @ [46, 46, 46])"
    unfolding r by (simp only: runes_dots)
  also have "\<dots> = 60" using l by simp
  finally show "length (runes (truncate title 60)) = 60" .
  show "suffix ''...'' (truncate title 60)"
    unfolding t by (rule suffixI) simp
next
  assume "length (runes title) \<le> 60"
  then show "truncate title 60 = title"
    by (simp add: truncate_def Let_def)
qed

theorem truncate_60_witness:
  "60 < length (runes long_title)
   \<and> length long_title = 62
   \<and> truncate long_title 60
       = CHR 0xC3 # CHR 0xA9 # ''01234567890123456789012345678901234567890123456789012345...''
   \<and> runes (truncate long_title 60)
       = 233 # map of_char ''01234567890123456789012345678901234567890123456789012345...''
   \<and> length (runes (truncate long_title 60)) = 60
   \<and> length (runes ''ten chars.'') \<le> 60
   \<and> truncate ''ten chars.'' 60 = ''ten chars.''"
proof -
  have a: "60 < length (runes long_title)" by code_simp
  have n: "length long_title = 62" by code_simp
  have b: "length (runes ''ten chars.'') \<le> 60" by code_simp
  have c: "string_of_runes (take 57 (runes long_title)) @ ''...''
       = CHR 0xC3 # CHR 0xA9 # ''01234567890123456789012345678901234567890123456789012345...''"
    by code_simp
  have d: "take 57 (runes long_title) @ runes ''...''
       = 233 # map of_char ''01234567890123456789012345678901234567890123456789012345...''"
    by code_simp
  from truncate_60[of long_title] a
  have t: "truncate long_title 60 = string_of_runes (take 57 (runes long_title)) @ ''...''"
    and r: "runes (truncate long_title 60) = take 57 (runes long_title) @ runes ''...''"
    and l: "length (runes (truncate long_title 60)) = 60"
    by blast+
  from truncate_60[of "''ten chars.''"] b
  have s: "truncate ''ten chars.'' 60 = ''ten chars.''" by blast
  from a n trans[OF t c] trans[OF r d] l b s show ?thesis by blast
qed

end
